theory Spec2Isabelle
  imports Main
begin

section \<open>JavaScript values and objects\<close>

text \<open>
  The records handled by \<^verbatim>\<open>DatabaseService\<close> (src/index.ts) are plain JavaScript
  objects (\<^verbatim>\<open>Record<string, any>\<close>). A value is one of the JSON-like shapes the service
  can meet; numbers are the integers that \<^verbatim>\<open>Date.now()\<close> produces.
\<close>

datatype jsval =
    Undefined
  | Null
  | Bool bool
  | Num int
  | Str string
  | Arr "jsval list"
  | Obj "(string \<times> jsval) list"

text \<open>
  An object is the list of its own properties in the order \<^verbatim>\<open>Object.keys\<close> and the spread
  operator enumerate them: first the keys that are array indices, ascending, then the
  other string keys by creation.
\<close>

type_synonym 'v jsobj = "(string \<times> 'v) list"
type_synonym item = "jsval jsobj"

definition Object_keys :: "'v jsobj \<Rightarrow> string list" where
  "Object_keys obj = map fst obj"

text \<open>
  \<^verbatim>\<open>key in obj\<close> and \<^verbatim>\<open>obj[key]\<close> for a key that is found among the object's own
  properties or not at all: a fixed name such as \<^verbatim>\<open>id\<close>, or a key taken from
  \<^verbatim>\<open>Object.keys(obj)\<close>. Reading under a name that the caller chooses is \<open>get_member\<close>
  below.
\<close>

definition has_prop :: "string \<Rightarrow> 'v jsobj \<Rightarrow> bool" where
  "has_prop key obj = (map_of obj key \<noteq> None)"

text \<open>A missing property reads as undefined.\<close>

definition get_prop :: "item \<Rightarrow> string \<Rightarrow> jsval" where
  "get_prop obj key = (case map_of obj key of None \<Rightarrow> Undefined | Some v \<Rightarrow> v)"

subsection \<open>Inherited properties\<close>




subsection \<open>Array-index keys\<close>

definition digit_of :: "char \<Rightarrow> int option" where
  "digit_of c = map_of (zip ''0123456789'' [0, 1, 2, 3, 4, 5, 6, 7, 8, 9]) c"

fun decimal :: "int \<Rightarrow> string \<Rightarrow> int option" where
  "decimal acc [] = Some acc"
| "decimal acc (c # cs) =
     (case digit_of c of None \<Rightarrow> None | Some d \<Rightarrow> decimal (10 * acc + d) cs)"

text \<open>
  A key is an array index when it is the canonical decimal form (no sign, no leading
  zero) of an integer from 0 to \<open>2\<^sup>3\<^sup>2 - 2\<close>.
\<close>

definition array_index :: "string \<Rightarrow> int option" where
  "array_index key =
     (if key = [] \<or> (hd key = CHR ''0'' \<and> key \<noteq> ''0'') then None
      else case decimal 0 key of
             None \<Rightarrow> None
           | Some n \<Rightarrow> if n < 4294967295 then Some n else None)"

subsection \<open>Writing a property\<close>

fun insert_index :: "int \<Rightarrow> string \<Rightarrow> 'v \<Rightarrow> 'v jsobj \<Rightarrow> 'v jsobj" where
  "insert_index n key v [] = [(key, v)]"
| "insert_index n key v ((k, u) # rest) =
     (case array_index k of
        Some m \<Rightarrow> if m < n then (k, u) # insert_index n key v rest
                  else (key, v) # (k, u) # rest
      | None \<Rightarrow> (key, v) # (k, u) # rest)"

fun overwrite :: "string \<Rightarrow> 'v \<Rightarrow> 'v jsobj \<Rightarrow> 'v jsobj" where
  "overwrite key v [] = []"
| "overwrite key v ((k, u) # rest) =
     (if k = key then (k, v) # rest else (k, u) # overwrite key v rest)"

text \<open>
  \<^verbatim>\<open>obj[key] = v\<close>: an existing property keeps its place and takes the new value; a
  new one is created, among the array indices when its key is one and last otherwise.
\<close>

definition set_prop :: "string \<Rightarrow> 'v \<Rightarrow> 'v jsobj \<Rightarrow> 'v jsobj" where
  "set_prop key v obj =
     (if has_prop key obj then overwrite key v obj
      else case array_index key of
             Some n \<Rightarrow> insert_index n key v obj
           | None \<Rightarrow> obj @ [(key, v)])"

text \<open>
  \<^verbatim>\<open>{ ...target, ...source }\<close>: every own property of the source is written onto the
  target in the source's order.
\<close>

definition spread :: "'v jsobj \<Rightarrow> 'v jsobj \<Rightarrow> 'v jsobj" where
  "spread target source = fold (\<lambda>(k, v) obj. set_prop k v obj) source target"

subsection \<open>Arrays and strings\<close>

text \<open>\<^verbatim>\<open>items.slice(start, end)\<close> for indices that are not negative.\<close>

definition slice_from :: "'a list \<Rightarrow> nat \<Rightarrow> nat \<Rightarrow> 'a list" where
  "slice_from xs start stop = take (stop - start) (drop start xs)"

text \<open>\<^verbatim>\<open>parts.join(sep)\<close>\<close>

fun join :: "string \<Rightarrow> string list \<Rightarrow> string" where
  "join sep [] = []"
| "join sep [s] = s"
| "join sep (s # t # rest) = s @ sep @ join sep (t # rest)"

text \<open>
  \<^verbatim>\<open>xs.map(callback)\<close> for a callback with side effects: the state is threaded through
  the calls from the first element to the last.
\<close>

fun map_effect :: "('a \<Rightarrow> 's \<Rightarrow> 'b \<times> 's) \<Rightarrow> 'a list \<Rightarrow> 's \<Rightarrow> 'b list \<times> 's" where
  "map_effect f [] s = ([], s)"
| "map_effect f (x # xs) s =
     (let (y, s1) = f x s;
          (ys, s2) = map_effect f xs s1
      in (y # ys, s2))"

subsection \<open>\<^verbatim>\<open>Date.prototype.toISOString\<close>\<close>

text \<open>
  The language's own formatting of a time value (milliseconds since the epoch, UTC):
  \<^verbatim>\<open>YYYY-MM-DDTHH:mm:ss.sssZ\<close>, the year signed and six digits long outside 0 to 9999.
  The method throws only on a \<^verbatim>\<open>Date\<close> without a time value, which \<^verbatim>\<open>new Date()\<close> never
  is.
\<close>

fun pad :: "nat \<Rightarrow> nat \<Rightarrow> string" where
  "pad 0 n = []"
| "pad (Suc width) n = pad width (n div 10) @ [''0123456789'' ! (n mod 10)]"

text \<open>
  The calendar date of a day number (days since 1 January 1970), by way of the era of 400
  years that the day lies in, the day within the era, the year within the era, the day
  within the year (which starts in March) and the month counted from March.
\<close>

definition civil_of_month :: "int \<Rightarrow> int \<Rightarrow> int \<Rightarrow> int \<times> int \<times> int" where
  "civil_of_month y doy mp =
     (if mp < 10 then (y, mp + 3, doy - (153 * mp + 2) div 5 + 1)
      else (y + 1, mp - 9, doy - (153 * mp + 2) div 5 + 1))"

definition civil_of_day :: "int \<Rightarrow> int \<Rightarrow> int \<times> int \<times> int" where
  "civil_of_day y doy = civil_of_month y doy ((5 * doy + 2) div 153)"

definition civil_of_year :: "int \<Rightarrow> int \<Rightarrow> int \<Rightarrow> int \<times> int \<times> int" where
  "civil_of_year era doe yoe =
     civil_of_day (yoe + era * 400) (doe - (365 * yoe + yoe div 4 - yoe div 100))"

definition civil_of_era :: "int \<Rightarrow> int \<Rightarrow> int \<times> int \<times> int" where
  "civil_of_era era doe =
     civil_of_year era doe ((doe - doe div 1460 + doe div 36524 - doe div 146096) div 365)"

definition civil_from_days :: "int \<Rightarrow> int \<times> int \<times> int" where
  "civil_from_days day = civil_of_era ((day + 719468) div 146097) ((day + 719468) mod 146097)"

fun format_utc :: "int \<times> int \<times> int \<Rightarrow> int \<Rightarrow> string" where
  "format_utc (y, m, d) ms =
     (if 0 \<le> y \<and> y \<le> 9999 then pad 4 (nat y)
      else (if y < 0 then ''-'' else ''+'') @ pad 6 (nat \<bar>y\<bar>)) @
     ''-'' @ pad 2 (nat m) @ ''-'' @ pad 2 (nat d) @ ''T'' @
     pad 2 (nat (ms div 3600000)) @ '':'' @ pad 2 (nat (ms div 60000 mod 60)) @ '':'' @
     pad 2 (nat (ms div 1000 mod 60)) @ ''.'' @ pad 3 (nat (ms mod 1000)) @ ''Z''"

definition toISOString :: "int \<Rightarrow> string" where
  "toISOString t = format_utc (civil_from_days (t div 86400000)) (t mod 86400000)"

section \<open>The store client and the other collaborators\<close>

text \<open>
  The commands of \<^verbatim>\<open>@aws-sdk/lib-dynamodb\<close> that the service builds, each with the
  fields the service fills in, in the order of the comments.
\<close>

datatype return_value = ALL_OLD | ALL_NEW

datatype write_request =
  PutRequest item "return_value option"  \<comment> \<open>Item, ReturnValues\<close>

datatype command =
    GetCommand string "string jsobj"  \<comment> \<open>TableName, Key\<close>
  | BatchGetCommand "string jsobj list jsobj"  \<comment> \<open>RequestItems: table to Keys\<close>
  | QueryCommand string item string string
      \<comment> \<open>KeyConditionExpression, ExpressionAttributeValues, IndexName, TableName\<close>
  | PutCommand string item "return_value option"  \<comment> \<open>TableName, Item, ReturnValues\<close>
  | BatchWriteCommand "write_request list jsobj"  \<comment> \<open>RequestItems: table to requests\<close>
  | UpdateCommand string "string jsobj" string "string jsobj" item return_value
      \<comment> \<open>TableName, Key, UpdateExpression, ExpressionAttributeNames,
          ExpressionAttributeValues, ReturnValues\<close>

text \<open>The fields of a response that the service reads; a field may be undefined.\<close>

record response =
  Item :: "item option"
  Responses :: "item list jsobj option"
  Items :: "item list option"
  Attributes :: "item option"

text \<open>An error object the client rejects with: its name and its message.\<close>

datatype sdk_error = SdkError string string

fun message :: "sdk_error \<Rightarrow> string" where
  "message (SdkError name msg) = msg"

text \<open>
  What an operation throws: the client's error object as it came, or an
  \<^verbatim>\<open>Error\<close> the service constructs itself from a message.
\<close>

datatype exn = Provider sdk_error | Error string

text \<open>
  Everything outside the file: the system clock (the value of its n-th reading), the
  \<^verbatim>\<open>uuid\<close> generator (the token of its n-th call), the document client (its answer to a
  command, given the commands it was sent before) and the constant
  \<^verbatim>\<open>ErrorMessage.NOT_FOUND\<close>, which is imported from a module that is not part of the
  file and is therefore a parameter here.
\<close>

record env =
  Date_now :: "nat \<Rightarrow> int"
  uuid :: "nat \<Rightarrow> string"
  docClient :: "command list \<Rightarrow> command \<Rightarrow> sdk_error + response"
  NOT_FOUND :: string

text \<open>
  The state that the operations change: how often the clock was read and the generator
  called, and the commands sent to the client, oldest first.
\<close>

record world =
  clock_reads :: nat
  uuid_calls :: nat
  sent :: "command list"

text \<open>\<^verbatim>\<open>Date.now()\<close>, and the time value of \<^verbatim>\<open>new Date()\<close>\<close>

definition now :: "env \<Rightarrow> world \<Rightarrow> int \<times> world" where
  "now env w = (Date_now env (clock_reads w), w\<lparr>clock_reads := clock_reads w + 1\<rparr>)"

text \<open>\<^verbatim>\<open>uuid()\<close>\<close>

definition uuid_v4 :: "env \<Rightarrow> world \<Rightarrow> string \<times> world" where
  "uuid_v4 env w = (uuid env (uuid_calls w), w\<lparr>uuid_calls := uuid_calls w + 1\<rparr>)"

text \<open>\<^verbatim>\<open>await this.docClient.send(command)\<close>: \<open>Inl\<close> is a rejection.\<close>

definition send :: "env \<Rightarrow> command \<Rightarrow> world \<Rightarrow> (sdk_error + response) \<times> world" where
  "send env command w = (docClient env (sent w) command, w\<lparr>sent := sent w @ [command]\<rparr>)"

section \<open>Item enrichment\<close>

definition generateID :: "env \<Rightarrow> item \<Rightarrow> world \<Rightarrow> item \<times> world" where
  "generateID env data w =
     (let newData = spread [] data in
      if \<not> has_prop ''id'' newData \<or> get_prop newData ''id'' = Undefined
         \<or> get_prop newData ''id'' = Null
      then (let (token, w1) = uuid_v4 env w in (set_prop ''id'' (Str token) newData, w1))
      else (newData, w))"

definition addTimestamps :: "env \<Rightarrow> item \<Rightarrow> world \<Rightarrow> item \<times> world" where
  "addTimestamps env data w =
     (let item0 = spread [] data;
          (t1, w1) = now env w;
          item1 = set_prop ''createdAt'' (Num t1) item0;
          (t2, w2) = now env w1;
          item2 = set_prop ''updatedAt'' (Num t2) item1
      in (item2, w2))"

definition modifyUpdatedAtTimestamp :: "env \<Rightarrow> item \<Rightarrow> world \<Rightarrow> item \<times> world" where
  "modifyUpdatedAtTimestamp env data w =
     (let item0 = spread [] data;
          (t, w1) = now env w
      in (set_prop ''updatedAt'' (Num t) item0, w1))"

definition addCreatedAt :: "env \<Rightarrow> item \<Rightarrow> world \<Rightarrow> item \<times> world" where
  "addCreatedAt env data w =
     (let (t1, w1) = now env w;
          (t2, w2) = now env w1
      in (spread [(''createdAt'', Str (toISOString t1)), (''updatedAt'', Str (toISOString t2))]
            data, w2))"

section \<open>The batch chunker\<close>

text \<open>
  \<^verbatim>\<open>for (let i = 0; i < items.length; i += batchSize)\<close>: with a batch size of zero and
  a list that is not empty the index never moves and the loop does not end, which is the
  value \<open>None\<close>. The service has two copies of the function.
\<close>

partial_function (option)
  createBatches_loop :: "'a list \<Rightarrow> nat \<Rightarrow> nat \<Rightarrow> 'a list list \<Rightarrow> 'a list list option"
where
  "createBatches_loop items batchSize i batches =
     (if i < length items
      then createBatches_loop items batchSize (i + batchSize)
             (batches @ [slice_from items i (i + batchSize)])
      else Some batches)"

definition createBatches :: "'a list \<Rightarrow> nat \<Rightarrow> 'a list list option" where
  "createBatches items batchSize = createBatches_loop items batchSize 0 []"

partial_function (option)
  createBatch_loop :: "'a list \<Rightarrow> nat \<Rightarrow> nat \<Rightarrow> 'a list list \<Rightarrow> 'a list list option"
where
  "createBatch_loop items batchSize i batches =
     (if i < length items
      then createBatch_loop items batchSize (i + batchSize)
             (batches @ [slice_from items i (i + batchSize)])
      else Some batches)"

definition createBatch :: "'a list \<Rightarrow> nat \<Rightarrow> 'a list list option" where
  "createBatch items batchSize = createBatch_loop items batchSize 0 []"

section \<open>The operations of \<^verbatim>\<open>DatabaseService\<close>\<close>

text \<open>
  Each operation takes the fields of its \<^verbatim>\<open>params\<close> object and the state, and returns
  what the promise settles to (\<open>Inl\<close> is a rejection) with the new state. The writes to
  the console are left out.
\<close>

definition getItem :: "env \<Rightarrow> string \<Rightarrow> string jsobj \<Rightarrow> world \<Rightarrow> (exn + item) \<times> world" where
  "getItem env table key w =
     (let command = GetCommand table key;
          (r, w1) = send env command w
      in case r of
           Inl error \<Rightarrow>
             if message error = ''Requested resource not found''
             then (Inl (Error (NOT_FOUND env)), w1)
             else (Inl (Provider error), w1)
         | Inr response \<Rightarrow>
             (case Item response of
                None \<Rightarrow> (Inl (Error (NOT_FOUND env)), w1)
              | Some found \<Rightarrow> (Inr found, w1)))"


definition listItemsByIndex ::
  "env \<Rightarrow> string \<Rightarrow> item \<Rightarrow> string \<Rightarrow> world \<Rightarrow> (exn + item list) \<times> world" where
  "listItemsByIndex env index vals table w =
     (let attributeValues =
            fold (\<lambda>key acc. set_prop ('':'' @ key) (get_prop vals key) acc) (Object_keys vals) [];
          command =
            QueryCommand (join '' AND '' (map (\<lambda>val. val @ '' = :'' @ val) (Object_keys vals)))
              attributeValues index table;
          (r, w1) = send env command w
      in case r of
           Inl error \<Rightarrow> (Inl (Provider error), w1)
         | Inr out \<Rightarrow>
             (let response = map_option (map (\<lambda>item. item)) (Items out)
              in if map_option length response = Some 0 then (Inl (Error (NOT_FOUND env)), w1)
                 else (Inr (case response of None \<Rightarrow> [] | Some found \<Rightarrow> found), w1)))"

definition createItem :: "env \<Rightarrow> item \<Rightarrow> string \<Rightarrow> world \<Rightarrow> (exn + item) \<times> world" where
  "createItem env data table w =
     (let (withId, w1) = generateID env data w;
          (item, w2) = addTimestamps env withId w1;
          command = PutCommand table item (Some ALL_OLD);
          (r, w3) = send env command w2
      in case r of
           Inl error \<Rightarrow> (Inl (Provider error), w3)
         | Inr response \<Rightarrow> (Inr item, w3))"

text \<open>
  The callback of \<^verbatim>\<open>batch.map\<close> in \<^verbatim>\<open>batchCreateItems\<close>: its state is the
  \<^verbatim>\<open>response\<close> array it pushes to, and the world.
\<close>

definition batchCreateItems_request ::
  "env \<Rightarrow> item \<Rightarrow> item list \<times> world \<Rightarrow> write_request \<times> (item list \<times> world)" where
  "batchCreateItems_request env item s =
     (let (response, w) = s;
          (withId, w1) = generateID env item w;
          (requestItem, w2) = addTimestamps env withId w1
      in (PutRequest requestItem (Some ALL_OLD), (response @ [requestItem], w2)))"

text \<open>\<^verbatim>\<open>for (const batch of batches)\<close> in \<^verbatim>\<open>batchCreateItems\<close>\<close>

fun batchCreateItems_loop ::
  "env \<Rightarrow> string \<Rightarrow> item list list \<Rightarrow> item list \<Rightarrow> world \<Rightarrow> (exn + item list) \<times> world" where
  "batchCreateItems_loop env table [] response w = (Inr response, w)"
| "batchCreateItems_loop env table (batch # batches) response w =
     (let (putRequests, (response1, w1)) =
            map_effect (batchCreateItems_request env) batch (response, w);
          command = BatchWriteCommand [(table, putRequests)];
          (r, w2) = send env command w1
      in case r of
           Inl error \<Rightarrow> (Inl (Provider error), w2)
         | Inr res \<Rightarrow> batchCreateItems_loop env table batches response1 w2)"

text \<open>The result \<open>None\<close> is an operation that never settles.\<close>

definition batchCreateItems ::
  "env \<Rightarrow> item list \<Rightarrow> string \<Rightarrow> world \<Rightarrow> ((exn + item list) \<times> world) option" where
  "batchCreateItems env items table w =
     (case createBatches items 25 of
        None \<Rightarrow> None
      | Some batches \<Rightarrow> Some (batchCreateItems_loop env table batches [] w))"

definition updateItem ::
  "env \<Rightarrow> string jsobj \<Rightarrow> string \<Rightarrow> item \<Rightarrow> world \<Rightarrow> (exn + item option) \<times> world" where
  "updateItem env key table data0 w =
     (let (data, w1) = modifyUpdatedAtTimestamp env data0 w;
          updateExpression =
            ''set '' @ join '', '' (map (\<lambda>key. ''#'' @ key @ '' = :'' @ key) (Object_keys data));
          expressionAttributeNames =
            fold (\<lambda>key acc. set_prop (''#'' @ key) key acc) (Object_keys data) [];
          attributeValues =
            fold (\<lambda>key acc. set_prop ('':'' @ key) (get_prop data key) acc) (Object_keys data) [];
          command =
            UpdateCommand table key updateExpression expressionAttributeNames attributeValues
              ALL_NEW;
          (r, w2) = send env command w1
      in case r of
           Inl error \<Rightarrow> (Inl (Provider error), w2)
         | Inr response \<Rightarrow> (Inr (Attributes response), w2))"

text \<open>The callback of \<^verbatim>\<open>chunk.map\<close> in \<^verbatim>\<open>addItems\<close>\<close>

definition addItems_request :: "env \<Rightarrow> item \<Rightarrow> world \<Rightarrow> write_request \<times> world" where
  "addItems_request env movie w =
     (let (item, w1) = addCreatedAt env movie w in (PutRequest item None, w1))"

text \<open>\<^verbatim>\<open>for (const chunk of chunks)\<close> in \<^verbatim>\<open>addItems\<close>\<close>

fun addItems_loop :: "env \<Rightarrow> string \<Rightarrow> item list list \<Rightarrow> world \<Rightarrow> (exn + unit) \<times> world" where
  "addItems_loop env table [] w = (Inr (), w)"
| "addItems_loop env table (chunk # chunks) w =
     (let (putRequests, w1) = map_effect (addItems_request env) chunk w;
          command = BatchWriteCommand [(table, putRequests)];
          (r, w2) = send env command w1
      in case r of
           Inl error \<Rightarrow> (Inl (Provider error), w2)
         | Inr res \<Rightarrow> addItems_loop env table chunks w2)"

definition addItems ::
  "env \<Rightarrow> string \<Rightarrow> item list \<Rightarrow> world \<Rightarrow> ((exn + unit) \<times> world) option" where
  "addItems env table items w =
     (case createBatch items 25 of
        None \<Rightarrow> None
      | Some chunks \<Rightarrow> Some (addItems_loop env table chunks w))"

text \<open>\<^verbatim>\<open>excludeCreatedAt\<close> is optional: \<open>None\<close> is a call that leaves it out.\<close>

definition addItem ::
  "env \<Rightarrow> string \<Rightarrow> item \<Rightarrow> bool option \<Rightarrow> world \<Rightarrow> (exn + unit) \<times> world" where
  "addItem env table data excludeCreatedAt0 w =
     (let excludeCreatedAt = (case excludeCreatedAt0 of None \<Rightarrow> False | Some flag \<Rightarrow> flag);
          (item, w1) = (if excludeCreatedAt then (data, w) else addCreatedAt env data w);
          command = PutCommand table item None;
          (r, w2) = send env command w1
      in case r of
           Inl error \<Rightarrow> (Inl (Provider error), w2)
         | Inr response \<Rightarrow> (Inr (), w2))"

section \<open>Notions used to state the properties\<close>

text \<open>
  The enrichment that the create operations apply to a record,
  \<^verbatim>\<open>this.addTimestamps(this.generateID(item))\<close>.
\<close>

definition enrich :: "env \<Rightarrow> item \<Rightarrow> world \<Rightarrow> item \<times> world" where
  "enrich env data w = (let (withId, w1) = generateID env data w in addTimestamps env withId w1)"

text \<open>A record handed over by a caller is an object: no key occurs twice.\<close>

definition is_object :: "'v jsobj \<Rightarrow> bool" where
  "is_object obj = distinct (Object_keys obj)"

text \<open>A record whose identifier is absent, undefined or null.\<close>

definition lacks_id :: "item \<Rightarrow> bool" where
  "lacks_id data =
     (\<not> has_prop ''id'' data \<or> get_prop data ''id'' = Undefined \<or> get_prop data ''id'' = Null)"

text \<open>
  The contract of the identifier generator for its first n calls: no token is empty and
  no two of the calls return the same token.
\<close>

definition unique_tokens :: "env \<Rightarrow> nat \<Rightarrow> bool" where
  "unique_tokens env n = (\<forall>i < n. uuid env i \<noteq> [] \<and> (\<forall>j < i. uuid env j \<noteq> uuid env i))"

text \<open>
  The extended ISO 8601 form of a time in UTC, with a year of four digits, or of a sign
  and six digits. In a template the letter d stands for any digit and every other
  character for itself.
\<close>

definition is_digit :: "char \<Rightarrow> bool" where
  "is_digit c = (c \<in> set ''0123456789'')"

fun matches :: "string \<Rightarrow> string \<Rightarrow> bool" where
  "matches [] [] = True"
| "matches (p # ps) (c # cs) = ((if p = CHR ''d'' then is_digit c else c = p) \<and> matches ps cs)"
| "matches ps cs = False"

definition iso_8601 :: "string \<Rightarrow> bool" where
  "iso_8601 s =
     (matches ''dddd-dd-ddTdd:dd:dd.dddZ'' s
      \<or> matches ''+dddddd-dd-ddTdd:dd:dd.dddZ'' s
      \<or> matches ''-dddddd-dd-ddTdd:dd:dd.dddZ'' s)"

text \<open>The records that a write command carries, in the order of the command.\<close>

fun request_item :: "write_request \<Rightarrow> item" where
  "request_item (PutRequest item rv) = item"

fun carried :: "command \<Rightarrow> item list" where
  "carried (BatchWriteCommand requestItems) = concat (map (map request_item \<circ> snd) requestItems)"
| "carried (PutCommand table item rv) = [item]"
| "carried (GetCommand table key) = []"
| "carried (BatchGetCommand requestItems) = []"
| "carried (QueryCommand expr vals index table) = []"
| "carried (UpdateCommand table key expr names vals rv) = []"

text \<open>A bulk write that addresses the one table.\<close>

fun bulk_write_to :: "string \<Rightarrow> command \<Rightarrow> bool" where
  "bulk_write_to table (BatchWriteCommand requestItems) = (map fst requestItems = [table])"
| "bulk_write_to table (PutCommand t item rv) = False"
| "bulk_write_to table (GetCommand t key) = False"
| "bulk_write_to table (BatchGetCommand requestItems) = False"
| "bulk_write_to table (QueryCommand expr vals index t) = False"
| "bulk_write_to table (UpdateCommand t key expr names vals rv) = False"

text \<open>
  The client's answers to the commands \<open>cmds\<close>, sent one after the other to a client that
  was sent \<open>history\<close> before.
\<close>

fun replies :: "env \<Rightarrow> command list \<Rightarrow> command list \<Rightarrow> (sdk_error + response) list" where
  "replies env history [] = []"
| "replies env history (c # cmds) = docClient env history c # replies env (history @ [c]) cmds"

section \<open>Sample collaborators\<close>

text \<open>
  Concrete collaborators on which the theorems below are exercised: a state in which
  nothing has happened yet, a clock that advances by one millisecond with every reading,
  and clients that accept every command, that reject from their k-th command on, or that
  answer with a given response.
\<close>

definition initial :: world where
  "initial = \<lparr>clock_reads = 0, uuid_calls = 0, sent = []\<rparr>"

definition empty_response :: response where
  "empty_response = \<lparr>Item = None, Responses = None, Items = None, Attributes = None\<rparr>"

definition accepting :: "command list \<Rightarrow> command \<Rightarrow> sdk_error + response" where
  "accepting history command = Inr empty_response"

definition failing_from :: "nat \<Rightarrow> command list \<Rightarrow> command \<Rightarrow> sdk_error + response" where
  "failing_from k history command =
     (if length history < k then Inr empty_response
      else Inl (SdkError ''InternalServerError'' ''Internal server error''))"

definition answering :: "response \<Rightarrow> command list \<Rightarrow> command \<Rightarrow> sdk_error + response" where
  "answering out history command = Inr out"

definition sample_env :: "(command list \<Rightarrow> command \<Rightarrow> sdk_error + response) \<Rightarrow> env" where
  "sample_env client =
     \<lparr>Date_now = (\<lambda>n. 1700000000000 + int n),
      uuid = (\<lambda>n. ''3f2b8c1e-5d4a-4e6f-9a7b-0123456789'' @ pad 2 n),
      docClient = client,
      NOT_FOUND = ''NOT_FOUND''\<rparr>"

section \<open>Properties of objects\<close>

text \<open>
  Reading a property after a write, and the keys of the result. An object that is built
  by writes from the empty object has no key twice, whatever list it is read from.
\<close>

lemma Object_keys_simps:
  "Object_keys [] = []" "Object_keys ((k, v) # obj) = k # Object_keys obj"
  "Object_keys (xs @ ys) = Object_keys xs @ Object_keys ys"
  by (simp_all add: Object_keys_def)

lemma has_prop_iff: "has_prop key obj \<longleftrightarrow> key \<in> set (Object_keys obj)"
  by (simp add: has_prop_def Object_keys_def map_of_eq_None_iff)

lemma get_prop_absent: "\<not> has_prop k obj \<Longrightarrow> get_prop obj k = Undefined"
  by (simp add: get_prop_def has_prop_def)

lemma map_of_overwrite:
  "map_of (overwrite key v obj) x =
     (if x = key \<and> has_prop key obj then Some v else map_of obj x)"
  by (induction obj) (auto simp: has_prop_def)

lemma keys_overwrite: "Object_keys (overwrite key v obj) = Object_keys obj"
  by (induction obj) (auto simp: Object_keys_simps)

lemma map_of_insert_index:
  "\<not> has_prop key obj \<Longrightarrow>
   map_of (insert_index n key v obj) x = (if x = key then Some v else map_of obj x)"
proof (induction obj arbitrary: x)
  case Nil
  show ?case by simp
next
  case (Cons p obj)
  obtain k u where p: "p = (k, u)" by (cases p)
  from Cons.prems have "\<not> has_prop key obj" "k \<noteq> key"
    by (auto simp: has_prop_def p split: if_splits)
  with Cons.IH show ?case
    by (auto simp: p split: option.splits)
qed

lemma set_keys_insert_index:
  "set (Object_keys (insert_index n key v obj)) = insert key (set (Object_keys obj))"
proof (induction obj)
  case Nil
  show ?case by (simp add: Object_keys_simps)
next
  case (Cons p obj)
  obtain k u where p: "p = (k, u)" by (cases p)
  from Cons.IH show ?case
    by (auto simp: p Object_keys_simps split: option.splits)
qed

lemma distinct_insert_index:
  "key \<notin> set (Object_keys obj) \<Longrightarrow> distinct (Object_keys obj) \<Longrightarrow>
   distinct (Object_keys (insert_index n key v obj))"
proof (induction obj)
  case Nil
  then show ?case by (simp add: Object_keys_simps)
next
  case (Cons p obj)
  obtain k u where p: "p = (k, u)" by (cases p)
  from Cons.prems have "key \<notin> set (Object_keys obj)" "distinct (Object_keys obj)" "k \<noteq> key"
    "k \<notin> set (Object_keys obj)"
    by (auto simp: Object_keys_simps p)
  with Cons.IH set_keys_insert_index [of n key v obj] show ?case
    by (auto simp: Object_keys_simps p split: option.splits)
qed

lemma map_of_set_prop: "map_of (set_prop key v obj) = (map_of obj)(key \<mapsto> v)"
proof
  fix x
  show "map_of (set_prop key v obj) x = ((map_of obj)(key \<mapsto> v)) x"
  proof (cases "has_prop key obj")
    case True
    then show ?thesis by (simp add: set_prop_def map_of_overwrite)
  next
    case False
    then have "map_of obj key = None" by (simp add: has_prop_def)
    with False show ?thesis
      by (auto simp: set_prop_def map_of_insert_index map_add_def split: option.splits)
  qed
qed

lemma set_keys_set_prop:
  "set (Object_keys (set_prop key v obj)) = insert key (set (Object_keys obj))"
  by (auto simp: set_prop_def keys_overwrite set_keys_insert_index has_prop_iff Object_keys_simps
      split: option.splits)

lemma distinct_set_prop:
  "distinct (Object_keys obj) \<Longrightarrow> distinct (Object_keys (set_prop key v obj))"
  by (auto simp: set_prop_def keys_overwrite distinct_insert_index has_prop_iff Object_keys_simps
      split: option.splits)

lemma get_prop_set_prop:
  "get_prop (set_prop key v obj) k = (if k = key then v else get_prop obj k)"
  by (simp add: get_prop_def map_of_set_prop)

lemma has_prop_set_prop: "has_prop k (set_prop key v obj) \<longleftrightarrow> k = key \<or> has_prop k obj"
  by (simp add: has_prop_def map_of_set_prop)

lemma is_object_set_prop: "is_object obj \<Longrightarrow> is_object (set_prop k v obj)"
  by (simp add: is_object_def distinct_set_prop)

subsection \<open>The spread operator\<close>

lemma map_of_spread: "map_of (spread target source) = map_of target ++ map_of (rev source)"
  unfolding spread_def
proof (induction source arbitrary: target)
  case Nil
  show ?case by simp
next
  case (Cons p source)
  obtain k v where p: "p = (k, v)" by (cases p)
  show ?case
    by (simp add: p Cons.IH map_of_set_prop fun_eq_iff map_add_def split: option.splits)
qed

lemma map_of_rev_distinct: "distinct (map fst xs) \<Longrightarrow> map_of (rev xs) = map_of xs"
  by (rule map_of_inject_set [THEN iffD2]) (simp_all add: distinct_rev rev_map [symmetric])

lemma map_of_spread_distinct:
  "distinct (Object_keys source) \<Longrightarrow>
   map_of (spread target source) = map_of target ++ map_of source"
  by (simp add: map_of_spread map_of_rev_distinct Object_keys_def)

lemma set_keys_spread:
  "set (Object_keys (spread target source)) = set (Object_keys target) \<union> set (Object_keys source)"
  unfolding spread_def
proof (induction source arbitrary: target)
  case Nil
  show ?case by (simp add: Object_keys_simps)
next
  case (Cons p source)
  obtain k v where p: "p = (k, v)" by (cases p)
  show ?case
    by (simp add: p Cons.IH set_keys_set_prop Object_keys_simps)
qed

lemma distinct_spread:
  "distinct (Object_keys target) \<Longrightarrow> distinct (Object_keys (spread target source))"
  unfolding spread_def
  by (induction source arbitrary: target) (auto simp: distinct_set_prop)

lemma is_object_spread: "is_object (spread [] obj)"
  by (simp add: is_object_def distinct_spread Object_keys_simps)

lemma has_prop_spread_empty: "has_prop k (spread [] obj) \<longleftrightarrow> has_prop k obj"
  by (simp add: has_prop_iff set_keys_spread Object_keys_simps)

lemma get_prop_spread_empty: "is_object obj \<Longrightarrow> get_prop (spread [] obj) k = get_prop obj k"
  by (simp add: get_prop_def is_object_def map_of_spread_distinct)

subsection \<open>Keys that are not array indices\<close>

text \<open>
  A key that starts with a character other than a digit is created last, so a loop that
  writes such keys, all different, onto an object lists them in the order of the loop.
\<close>

lemma digit_of_not_digit:
  "c \<notin> set ''0123456789'' \<Longrightarrow> digit_of c = None"
  by (simp add: digit_of_def)

lemma array_index_prefixed:
  "c \<notin> set ''0123456789'' \<Longrightarrow> array_index (c # key) = None"
  by (auto simp: array_index_def digit_of_not_digit)

lemma array_index_names:
  "array_index ''id'' = None" "array_index ''createdAt'' = None"
  "array_index ''updatedAt'' = None" "array_index ''name'' = None"
  by (simp_all add: array_index_def digit_of_def)

lemma fold_set_prop_fresh:
  assumes "distinct (map f keys)"
    and "\<forall>k \<in> set keys. array_index (f k) = None \<and> \<not> has_prop (f k) acc"
  shows "fold (\<lambda>key acc. set_prop (f key) (g key) acc) keys acc = acc @ map (\<lambda>k. (f k, g k)) keys"
  using assms
proof (induction keys arbitrary: acc)
  case Nil
  show ?case by simp
next
  case (Cons k keys)
  from Cons.prems have first: "set_prop (f k) (g k) acc = acc @ [(f k, g k)]"
    by (simp add: set_prop_def)
  have "\<forall>k' \<in> set keys. array_index (f k') = None \<and> \<not> has_prop (f k') (acc @ [(f k, g k)])"
    using Cons.prems by (auto simp: has_prop_iff Object_keys_simps) (metis imageI)
  moreover have "distinct (map f keys)" using Cons.prems by simp
  ultimately have "fold (\<lambda>key acc. set_prop (f key) (g key) acc) keys (acc @ [(f k, g k)])
      = (acc @ [(f k, g k)]) @ map (\<lambda>k. (f k, g k)) keys"
    by (rule Cons.IH [rotated])
  with first show ?case by simp
qed

lemma fold_prefixed:
  assumes "distinct keys" and "c \<notin> set ''0123456789''"
  shows "fold (\<lambda>key acc. set_prop (c # key) (g key) acc) keys [] = map (\<lambda>k. (c # k, g k)) keys"
proof -
  have "distinct (map ((#) c) keys)" using assms(1) by (simp add: distinct_map)
  moreover have "\<forall>k \<in> set keys. array_index (c # k) = None \<and> \<not> has_prop (c # k) []"
    using assms(2) by (simp add: array_index_prefixed has_prop_def)
  ultimately show ?thesis
    using fold_set_prop_fresh [of "(#) c" keys "[]" g] by simp
qed

subsection \<open>Evaluation on concrete records\<close>

lemmas object_eval =
  spread_def set_prop_def has_prop_def get_prop_def array_index_names

lemmas sample_eval =
  sample_env_def accepting_def answering_def failing_from_def empty_response_def initial_def

section \<open>Reading operations\<close>

text \<open>
  Claim C4. \<^verbatim>\<open>getItem\<close> sends one single-item fetch. It signals NotFound (an
  \<^verbatim>\<open>Error\<close> with the message \<^verbatim>\<open>ErrorMessage.NOT_FOUND\<close>) exactly when the client rejects
  with the message "Requested resource not found" or answers without an item; every other
  rejection is thrown on as the client's own error object; and an item that the client
  answers with is returned as it is.
\<close>

theorem getItem_outcome:
  assumes "getItem env table key w = (r, w')"
  shows "sent w' = sent w @ [GetCommand table key]
     \<and> (r = Inl (Error (NOT_FOUND env)) \<longleftrightarrow>
          (\<exists>error. docClient env (sent w) (GetCommand table key) = Inl error
             \<and> message error = ''Requested resource not found'')
          \<or> (\<exists>response. docClient env (sent w) (GetCommand table key) = Inr response
             \<and> Item response = None))
     \<and> (\<forall>error. docClient env (sent w) (GetCommand table key) = Inl error
             \<and> message error \<noteq> ''Requested resource not found''
           \<longrightarrow> r = Inl (Provider error))
     \<and> (\<forall>response found. docClient env (sent w) (GetCommand table key) = Inr response
             \<and> Item response = Some found
           \<longrightarrow> r = Inr found)"
proof (cases "docClient env (sent w) (GetCommand table key)")
  case (Inl error)
  with assms show ?thesis
    by (auto simp: getItem_def send_def Let_def split: if_splits)
next
  case (Inr response)
  with assms show ?thesis
    by (cases "Item response") (auto simp: getItem_def send_def Let_def)
qed

theorem getItem_outcome_witness:
  "getItem (sample_env (answering (empty_response\<lparr>Item := Some [(''id'', Str ''u1''), (''name'', Str ''Ann'')]\<rparr>)))
      ''users'' [(''id'', ''u1'')] initial
    = (Inr [(''id'', Str ''u1''), (''name'', Str ''Ann'')],
       initial\<lparr>sent := [GetCommand ''users'' [(''id'', ''u1'')]]\<rparr>)
   \<and> getItem (sample_env accepting) ''users'' [(''id'', ''missing'')] initial
    = (Inl (Error ''NOT_FOUND''), initial\<lparr>sent := [GetCommand ''users'' [(''id'', ''missing'')]]\<rparr>)
   \<and> getItem (sample_env (failing_from 0)) ''users'' [(''id'', ''u1'')] initial
    = (Inl (Provider (SdkError ''InternalServerError'' ''Internal server error'')),
       initial\<lparr>sent := [GetCommand ''users'' [(''id'', ''u1'')]]\<rparr>)"
proof -
  have a: "getItem (sample_env (answering (empty_response\<lparr>Item := Some [(''id'', Str ''u1''), (''name'', Str ''Ann'')]\<rparr>)))
      ''users'' [(''id'', ''u1'')] initial
    = (Inr [(''id'', Str ''u1''), (''name'', Str ''Ann'')],
       initial\<lparr>sent := [GetCommand ''users'' [(''id'', ''u1'')]]\<rparr>)"
    by (simp add: getItem_def send_def sample_env_def answering_def empty_response_def initial_def)
  have b: "getItem (sample_env accepting) ''users'' [(''id'', ''missing'')] initial
    = (Inl (Error ''NOT_FOUND''), initial\<lparr>sent := [GetCommand ''users'' [(''id'', ''missing'')]]\<rparr>)"
    by (simp add: getItem_def send_def sample_env_def accepting_def empty_response_def initial_def)
  have c: "getItem (sample_env (failing_from 0)) ''users'' [(''id'', ''u1'')] initial
    = (Inl (Provider (SdkError ''InternalServerError'' ''Internal server error'')),
       initial\<lparr>sent := [GetCommand ''users'' [(''id'', ''u1'')]]\<rparr>)"
    by (simp add: getItem_def send_def sample_env_def failing_from_def initial_def)
  note getItem_outcome [OF a] getItem_outcome [OF b] getItem_outcome [OF c]
  with a b c show ?thesis by simp
qed



text \<open>
  Claim C5. \<^verbatim>\<open>listItemsByIndex\<close> sends one query on the named index of the table. When the
  client answers with an empty list of items it signals NotFound; when it answers with a
  list of one or more items it returns that very list: every item, once, in the client's
  order.
\<close>

theorem listItemsByIndex_outcome:
  assumes "listItemsByIndex env index vals table w = (r, w')"
  shows "\<exists>expr attributeValues.
       sent w' = sent w @ [QueryCommand expr attributeValues index table]
     \<and> (\<forall>out. docClient env (sent w) (QueryCommand expr attributeValues index table) = Inr out
          \<longrightarrow> (Items out = Some [] \<longrightarrow> r = Inl (Error (NOT_FOUND env)))
            \<and> (\<forall>found. Items out = Some found \<and> found \<noteq> [] \<longrightarrow> r = Inr found))
     \<and> (r = Inl (Error (NOT_FOUND env)) \<longrightarrow>
          (\<exists>out. docClient env (sent w) (QueryCommand expr attributeValues index table) = Inr out
             \<and> Items out = Some []))"
proof -
  let ?cmd = "QueryCommand
      (join '' AND '' (map (\<lambda>val. val @ '' = :'' @ val) (Object_keys vals)))
      (fold (\<lambda>key acc. set_prop ('':'' @ key) (get_prop vals key) acc) (Object_keys vals) [])
      index table"
  have s: "sent w' = sent w @ [?cmd]"
    using assms by (auto simp: listItemsByIndex_def send_def Let_def split: sum.splits if_splits)
  have "(\<forall>out. docClient env (sent w) ?cmd = Inr out
          \<longrightarrow> (Items out = Some [] \<longrightarrow> r = Inl (Error (NOT_FOUND env)))
            \<and> (\<forall>found. Items out = Some found \<and> found \<noteq> [] \<longrightarrow> r = Inr found))
     \<and> (r = Inl (Error (NOT_FOUND env)) \<longrightarrow>
          (\<exists>out. docClient env (sent w) ?cmd = Inr out \<and> Items out = Some []))"
  proof (cases "docClient env (sent w) ?cmd")
    case (Inl error)
    with assms show ?thesis by (auto simp: listItemsByIndex_def send_def Let_def)
  next
    case (Inr out)
    with assms show ?thesis
      by (cases "Items out") (auto simp: listItemsByIndex_def send_def Let_def split: if_splits)
  qed
  with s show ?thesis by blast
qed

theorem listItemsByIndex_outcome_witness:
  "listItemsByIndex (sample_env (answering (empty_response\<lparr>Items := Some []\<rparr>)))
      ''byCustomer'' [(''customerId'', Str ''c1'')] ''orders'' initial
    = (Inl (Error ''NOT_FOUND''),
       initial\<lparr>sent := [QueryCommand ''customerId = :customerId''
          [('':customerId'', Str ''c1'')] ''byCustomer'' ''orders'']\<rparr>)
   \<and> listItemsByIndex
      (sample_env (answering (empty_response\<lparr>Items :=
         Some [[(''id'', Str ''o2'')], [(''id'', Str ''o1'')]]\<rparr>)))
      ''byCustomer'' [(''customerId'', Str ''c1''), (''status'', Str ''open'')] ''orders'' initial
    = (Inr [[(''id'', Str ''o2'')], [(''id'', Str ''o1'')]],
       initial\<lparr>sent := [QueryCommand ''customerId = :customerId AND status = :status''
          [('':customerId'', Str ''c1''), ('':status'', Str ''open'')]
          ''byCustomer'' ''orders'']\<rparr>)"
proof -
  have k: "array_index '':customerId'' = None" "array_index '':status'' = None"
    by (simp_all add: array_index_def digit_of_def)
  have a: "listItemsByIndex (sample_env (answering (empty_response\<lparr>Items := Some []\<rparr>)))
      ''byCustomer'' [(''customerId'', Str ''c1'')] ''orders'' initial
    = (Inl (Error ''NOT_FOUND''),
       initial\<lparr>sent := [QueryCommand ''customerId = :customerId''
          [('':customerId'', Str ''c1'')] ''byCustomer'' ''orders'']\<rparr>)"
    by (simp add: listItemsByIndex_def send_def sample_env_def answering_def empty_response_def
        initial_def Object_keys_def set_prop_def has_prop_def get_prop_def k)
  have b: "listItemsByIndex
      (sample_env (answering (empty_response\<lparr>Items :=
         Some [[(''id'', Str ''o2'')], [(''id'', Str ''o1'')]]\<rparr>)))
      ''byCustomer'' [(''customerId'', Str ''c1''), (''status'', Str ''open'')] ''orders'' initial
    = (Inr [[(''id'', Str ''o2'')], [(''id'', Str ''o1'')]],
       initial\<lparr>sent := [QueryCommand ''customerId = :customerId AND status = :status''
          [('':customerId'', Str ''c1''), ('':status'', Str ''open'')]
          ''byCustomer'' ''orders'']\<rparr>)"
    by (simp add: listItemsByIndex_def send_def sample_env_def answering_def empty_response_def
        initial_def Object_keys_def set_prop_def has_prop_def get_prop_def k)
  note listItemsByIndex_outcome [OF a] listItemsByIndex_outcome [OF b]
  with a b show ?thesis by simp
qed

text \<open>
  A response of the client that has no list of items at all is answered with the empty
  list and not with NotFound.
\<close>

lemma listItemsByIndex_no_items:
  assumes "docClient env (sent w)
      (QueryCommand (join '' AND '' (map (\<lambda>val. val @ '' = :'' @ val) (Object_keys vals)))
        (fold (\<lambda>key acc. set_prop ('':'' @ key) (get_prop vals key) acc) (Object_keys vals) [])
        index table) = Inr out"
    and "Items out = None"
  shows "fst (listItemsByIndex env index vals table w) = Inr []"
  using assms by (simp add: listItemsByIndex_def send_def Let_def)

section \<open>The batch chunker\<close>

text \<open>
  With a batch size above zero the loop of \<^verbatim>\<open>createBatches\<close> ends, and so does the one of
  its copy \<^verbatim>\<open>createBatch\<close>: the j-th batch is the slice of the items from \<open>j n\<close> to
  \<open>j n + n\<close>, and there are \<open>\<lceil>N / n\<rceil>\<close> batches.
\<close>

lemma ceil_step:
  assumes "0 < n" "i < L"
  shows "(L - i + n - 1) div n = Suc ((L - (i + n) + n - 1) div n)"
proof (cases "i + n \<le> L")
  case True
  define k where "k = L - (i + n) + n - 1"
  have "L - i + n - 1 = k + n" unfolding k_def using True assms by arith
  then have "(L - i + n - 1) div n = (k + n) div n" by (rule arg_cong)
  also have "\<dots> = Suc (k div n)" using assms(1) div_add_self2 [of n k] by simp
  finally show ?thesis unfolding k_def .
next
  case False
  have z: "L - (i + n) + n - 1 = n - 1" using False by arith
  define k where "k = L - i - 1"
  have e: "L - i + n - 1 = n + k" unfolding k_def using assms by arith
  have "k < n" unfolding k_def using assms False by arith
  then have "(n + k) div n = Suc 0"
    using assms(1) div_add_self1 [of n k] by simp
  moreover have "(n - 1) div n = 0" using assms(1) by simp
  ultimately show ?thesis unfolding z e by simp
qed

lemma createBatches_loop_closed:
  assumes "0 < n"
  shows "createBatches_loop items n i acc =
         Some (acc @ map (\<lambda>j. slice_from items (i + j * n) (i + j * n + n))
                       [0 ..< (length items - i + n - 1) div n])"
proof (induction "length items - i" arbitrary: i acc rule: less_induct)
  case less
  show ?case
  proof (cases "i < length items")
    case False
    then have "(length items - i + n - 1) div n = 0" using assms by simp
    with False show ?thesis by (subst createBatches_loop.simps) simp
  next
    case True
    let ?K = "(length items - (i + n) + n - 1) div n"
    let ?f = "\<lambda>j. slice_from items (i + j * n) (i + j * n + n)"
    have "length items - (i + n) < length items - i" using True assms by simp
    note IH = less [OF this]
    have step: "(length items - i + n - 1) div n = Suc ?K"
      using ceil_step [OF assms True] .
    have "createBatches_loop items n i acc =
          createBatches_loop items n (i + n) (acc @ [slice_from items i (i + n)])"
      using True by (subst createBatches_loop.simps) simp
    also have "\<dots> = Some ((acc @ [slice_from items i (i + n)]) @
        map (\<lambda>j. slice_from items (i + n + j * n) (i + n + j * n + n)) [0 ..< ?K])"
      by (rule IH)
    also have "map (\<lambda>j. slice_from items (i + n + j * n) (i + n + j * n + n)) [0 ..< ?K]
        = map (\<lambda>j. ?f (Suc j)) [0 ..< ?K]"
      by (simp add: ac_simps)
    also have "(acc @ [slice_from items i (i + n)]) @ map (\<lambda>j. ?f (Suc j)) [0 ..< ?K]
        = acc @ map ?f [0 ..< Suc ?K]"
      by (simp add: map_upt_Suc del: upt_Suc)
    finally have "createBatches_loop items n i acc = Some (acc @ map ?f [0 ..< Suc ?K])" .
    then show ?thesis unfolding step .
  qed
qed

lemma createBatches_closed:
  assumes "0 < n"
  shows "createBatches items n =
         Some (map (\<lambda>j. slice_from items (j * n) (j * n + n)) [0 ..< (length items + n - 1) div n])"
  using createBatches_loop_closed [OF assms, of items 0 "[]"] by (simp add: createBatches_def)

lemma createBatch_loop_closed:
  assumes "0 < n"
  shows "createBatch_loop items n i acc =
         Some (acc @ map (\<lambda>j. slice_from items (i + j * n) (i + j * n + n))
                       [0 ..< (length items - i + n - 1) div n])"
proof (induction "length items - i" arbitrary: i acc rule: less_induct)
  case less
  show ?case
  proof (cases "i < length items")
    case False
    then have "(length items - i + n - 1) div n = 0" using assms by simp
    with False show ?thesis by (subst createBatch_loop.simps) simp
  next
    case True
    let ?K = "(length items - (i + n) + n - 1) div n"
    let ?f = "\<lambda>j. slice_from items (i + j * n) (i + j * n + n)"
    have "length items - (i + n) < length items - i" using True assms by simp
    note IH = less [OF this]
    have step: "(length items - i + n - 1) div n = Suc ?K"
      using ceil_step [OF assms True] .
    have "createBatch_loop items n i acc =
          createBatch_loop items n (i + n) (acc @ [slice_from items i (i + n)])"
      using True by (subst createBatch_loop.simps) simp
    also have "\<dots> = Some ((acc @ [slice_from items i (i + n)]) @
        map (\<lambda>j. slice_from items (i + n + j * n) (i + n + j * n + n)) [0 ..< ?K])"
      by (rule IH)
    also have "map (\<lambda>j. slice_from items (i + n + j * n) (i + n + j * n + n)) [0 ..< ?K]
        = map (\<lambda>j. ?f (Suc j)) [0 ..< ?K]"
      by (simp add: ac_simps)
    also have "(acc @ [slice_from items i (i + n)]) @ map (\<lambda>j. ?f (Suc j)) [0 ..< ?K]
        = acc @ map ?f [0 ..< Suc ?K]"
      by (simp add: map_upt_Suc del: upt_Suc)
    finally have "createBatch_loop items n i acc = Some (acc @ map ?f [0 ..< Suc ?K])" .
    then show ?thesis unfolding step .
  qed
qed

lemma createBatch_closed:
  assumes "0 < n"
  shows "createBatch items n =
         Some (map (\<lambda>j. slice_from items (j * n) (j * n + n)) [0 ..< (length items + n - 1) div n])"
  using createBatch_loop_closed [OF assms, of items 0 "[]"] by (simp add: createBatch_def)

subsection \<open>The batches in a row are the items\<close>

lemma length_slice_from:
  "length (slice_from xs start stop) = min (stop - start) (length xs - start)"
  by (simp add: slice_from_def)

lemma nth_chunk:
  "j < m \<Longrightarrow>
   map (\<lambda>j. slice_from xs (j * 25) (j * 25 + 25)) [0 ..< m] ! j = take 25 (drop (25 * j) xs)"
  by (simp add: slice_from_def mult.commute)

lemma concat_chunks_upto:
  "concat (map (\<lambda>j. slice_from items (j * n) (j * n + n)) [0 ..< q]) = take (q * n) items"
proof (induction q)
  case 0
  show ?case by simp
next
  case (Suc q)
  have "take (q * n + n) items = take (q * n) items @ take n (drop (q * n) items)"
    by (rule take_add)
  with Suc show ?case by (simp add: slice_from_def add.commute)
qed

lemma concat_take_chunks:
  "concat (take k (map (\<lambda>j. slice_from items (j * n) (j * n + n)) [0 ..< m]))
   = take (min k m * n) items"
proof -
  have "take k (map (\<lambda>j. slice_from items (j * n) (j * n + n)) [0 ..< m])
        = map (\<lambda>j. slice_from items (j * n) (j * n + n)) [0 ..< min k m]"
    by (simp add: take_map min_def)
  then show ?thesis by (simp only: concat_chunks_upto)
qed

lemma ceil_times_ge:
  assumes "0 < n"
  shows "(L::nat) \<le> (L + n - 1) div n * n"
proof -
  have "L + n - 1 = (L + n - 1) div n * n + (L + n - 1) mod n" by simp
  moreover have "(L + n - 1) mod n < n" using assms by simp
  ultimately show ?thesis by linarith
qed

lemma chunk_lengths_cong:
  "length xs = length ys \<Longrightarrow>
   map length (map (\<lambda>j. slice_from xs (j * n) (j * n + n)) js)
     = map length (map (\<lambda>j. slice_from ys (j * n) (j * n + n)) js)"
  by (simp add: length_slice_from)

lemma same_chunks:
  assumes "concat xss = concat yss" and "map length xss = map length yss"
  shows "xss = yss"
proof -
  have len: "length xss = length yss" using assms(2) by (rule map_eq_imp_length_eq)
  have "\<forall>(x, y) \<in> set (zip xss yss). length x = length y"
  proof (clarify)
    fix x y assume "(x, y) \<in> set (zip xss yss)"
    then obtain i where i: "i < length xss" "i < length yss" "xss ! i = x" "yss ! i = y"
      by (auto simp: set_zip)
    from assms(2) have "map length xss ! i = map length yss ! i" by simp
    with i show "length x = length y" by simp
  qed
  with len assms(1) show ?thesis by (simp add: concat_eq_concat_iff)
qed

section \<open>Maps with effects\<close>

lemma length_map_effect: "length (fst (map_effect f xs s)) = length xs"
  by (induction xs arbitrary: s) (auto simp: split_beta Let_def)

lemma map_effect_append:
  "map_effect f (xs @ ys) s =
     (fst (map_effect f xs s) @ fst (map_effect f ys (snd (map_effect f xs s))),
      snd (map_effect f ys (snd (map_effect f xs s))))"
  by (induction xs arbitrary: s) (auto simp: split_beta Let_def)

lemma map_effect_take:
  "fst (map_effect f (take n xs) s) = take n (fst (map_effect f xs s))"
proof (induction xs arbitrary: n s)
  case Nil
  show ?case by simp
next
  case (Cons x xs)
  show ?case by (cases n) (simp_all add: split_beta Let_def Cons.IH)
qed

lemma map_effect_nth:
  "i < length xs \<Longrightarrow>
   fst (map_effect f xs s) ! i = fst (f (xs ! i) (snd (map_effect f (take i xs) s)))"
proof (induction xs arbitrary: i s)
  case Nil
  then show ?case by simp
next
  case (Cons x xs)
  show ?case
  proof (cases i)
    case 0
    then show ?thesis by (simp add: split_beta Let_def)
  next
    case (Suc j)
    with Cons.prems have "j < length xs" by simp
    from Cons.IH [OF this] Suc show ?thesis by (simp add: split_beta Let_def)
  qed
qed

lemma map_effect_commute:
  assumes "\<And>x s. f x (g s) = (fst (f x s), g (snd (f x s)))"
  shows "map_effect f xs (g s) = (fst (map_effect f xs s), g (snd (map_effect f xs s)))"
  by (induction xs arbitrary: s) (auto simp: split_beta Let_def assms)

subsection \<open>Commands and the answers to them\<close>

lemma carried_bulk:
  "carried (BatchWriteCommand [(table, map (\<lambda>it. PutRequest it rv) its)]) = its"
  by (simp add: comp_def)

lemma length_replies: "length (replies env history cmds) = length cmds"
  by (induction cmds arbitrary: history) simp_all

section \<open>Enrichment of a record\<close>

text \<open>Whether \<^verbatim>\<open>generateID\<close> generates: the identifier is absent, undefined or null.\<close>

lemma generateID_result:
  "generateID env d w =
     (if \<not> has_prop ''id'' d \<or> get_prop (spread [] d) ''id'' = Undefined
          \<or> get_prop (spread [] d) ''id'' = Null
      then (set_prop ''id'' (Str (uuid env (uuid_calls w))) (spread [] d),
            w\<lparr>uuid_calls := uuid_calls w + 1\<rparr>)
      else (spread [] d, w))"
  by (simp add: generateID_def uuid_v4_def Let_def has_prop_spread_empty)

lemma is_object_generateID: "is_object (fst (generateID env d w))"
  by (simp add: generateID_result is_object_spread is_object_set_prop)

lemma get_prop_generateID:
  assumes "is_object d"
  shows "get_prop (fst (generateID env d w)) k =
     (if k = ''id'' \<and> (\<not> has_prop ''id'' d \<or> get_prop d ''id'' = Undefined \<or> get_prop d ''id'' = Null)
      then Str (uuid env (uuid_calls w)) else get_prop d k)"
  using assms by (auto simp: generateID_result get_prop_spread_empty get_prop_set_prop)

lemma addTimestamps_result:
  "addTimestamps env d w =
     (set_prop ''updatedAt'' (Num (Date_now env (clock_reads w + 1)))
        (set_prop ''createdAt'' (Num (Date_now env (clock_reads w))) (spread [] d)),
      w\<lparr>clock_reads := clock_reads w + 2\<rparr>)"
  by (simp add: addTimestamps_def now_def Let_def)

lemma get_prop_enrich:
  "get_prop (fst (enrich env d w)) k =
     (if k = ''updatedAt'' then Num (Date_now env (clock_reads w + 1))
      else if k = ''createdAt'' then Num (Date_now env (clock_reads w))
      else get_prop (fst (generateID env d w)) k)"
proof -
  have "clock_reads (snd (generateID env d w)) = clock_reads w"
    by (simp add: generateID_result)
  then show ?thesis
    by (simp add: enrich_def split_beta addTimestamps_result get_prop_set_prop
        get_prop_spread_empty is_object_generateID)
qed

lemma has_prop_enrich:
  "has_prop k (fst (enrich env d w)) \<longleftrightarrow>
     k = ''updatedAt'' \<or> k = ''createdAt'' \<or> k = ''id'' \<or> has_prop k d"
  by (auto simp: enrich_def split_beta addTimestamps_result has_prop_set_prop
      has_prop_spread_empty generateID_result)

lemma enrich_frame:
  assumes "is_object d" and "k \<noteq> ''id''" and "k \<noteq> ''createdAt''" and "k \<noteq> ''updatedAt''"
  shows "get_prop (fst (enrich env d w)) k = get_prop d k"
    and "has_prop k (fst (enrich env d w)) \<longleftrightarrow> has_prop k d"
  using assms by (simp_all add: get_prop_enrich get_prop_generateID has_prop_enrich)

subsection \<open>The state after an enrichment\<close>

lemma enrich_world:
  "snd (enrich env d w) =
     w\<lparr>clock_reads := clock_reads w + 2,
       uuid_calls := uuid_calls w +
         (if \<not> has_prop ''id'' (spread [] d) \<or> get_prop (spread [] d) ''id'' = Undefined
              \<or> get_prop (spread [] d) ''id'' = Null then 1 else 0)\<rparr>"
  by (simp add: enrich_def generateID_def addTimestamps_def now_def uuid_v4_def Let_def split_beta)

lemma enrich_sent:
  "enrich env d (w\<lparr>sent := h\<rparr>) = (fst (enrich env d w), (snd (enrich env d w))\<lparr>sent := h\<rparr>)"
  by (simp add: enrich_def generateID_def addTimestamps_def now_def uuid_v4_def Let_def split_beta)

lemma map_enrich_sent:
  "map_effect (enrich env) xs (w\<lparr>sent := h\<rparr>) =
     (fst (map_effect (enrich env) xs w), (snd (map_effect (enrich env) xs w))\<lparr>sent := h\<rparr>)"
  by (rule map_effect_commute) (rule enrich_sent)

lemma map_enrich_world:
  "sent (snd (map_effect (enrich env) xs w)) = sent w \<and>
   clock_reads (snd (map_effect (enrich env) xs w)) = clock_reads w + 2 * length xs"
  by (induction xs arbitrary: w) (auto simp: split_beta Let_def enrich_world)

lemma clock_after_enrich:
  "clock_reads (snd (map_effect (enrich env) xs w)) = clock_reads w + 2 * length xs"
  by (simp add: map_enrich_world)

subsection \<open>The identifier of an enriched record\<close>

lemma enrich_id:
  assumes "is_object d"
  shows "has_prop ''id'' (fst (enrich env d w))"
    and "get_prop (fst (enrich env d w)) ''id'' \<noteq> Undefined"
    and "get_prop (fst (enrich env d w)) ''id'' \<noteq> Null"
    and "get_prop (fst (enrich env d w)) ''id'' =
           (if lacks_id d then Str (uuid env (uuid_calls w)) else get_prop d ''id'')"
    and "uuid_calls (snd (enrich env d w)) = uuid_calls w + (if lacks_id d then 1 else 0)"
proof -
  show "has_prop ''id'' (fst (enrich env d w))" by (simp add: has_prop_enrich)
  show id: "get_prop (fst (enrich env d w)) ''id'' =
           (if lacks_id d then Str (uuid env (uuid_calls w)) else get_prop d ''id'')"
    using assms by (simp add: get_prop_enrich get_prop_generateID lacks_id_def)
  show "get_prop (fst (enrich env d w)) ''id'' \<noteq> Undefined"
    unfolding id by (auto simp: lacks_id_def)
  show "get_prop (fst (enrich env d w)) ''id'' \<noteq> Null"
    unfolding id by (auto simp: lacks_id_def)
  show "uuid_calls (snd (enrich env d w)) = uuid_calls w + (if lacks_id d then 1 else 0)"
    using assms by (simp add: enrich_world lacks_id_def get_prop_spread_empty has_prop_spread_empty)
qed

lemma uuid_after_enrich:
  "\<forall>d \<in> set xs. is_object d \<Longrightarrow>
   uuid_calls (snd (map_effect (enrich env) xs w)) = uuid_calls w + length (filter lacks_id xs)"
  by (induction xs arbitrary: w) (auto simp: split_beta Let_def enrich_id)

subsection \<open>A single creation\<close>

lemma createItem_result:
  "createItem env data table w =
     (case docClient env (sent w) (PutCommand table (fst (enrich env data w)) (Some ALL_OLD)) of
        Inl error \<Rightarrow> Inl (Provider error)
      | Inr response \<Rightarrow> Inr (fst (enrich env data w)),
      (snd (enrich env data w))
        \<lparr>sent := sent w @ [PutCommand table (fst (enrich env data w)) (Some ALL_OLD)]\<rparr>)"
proof -
  have "sent (snd (enrich env data w)) = sent w"
    by (simp add: enrich_world)
  then show ?thesis
    by (simp add: createItem_def enrich_def send_def split_beta Let_def split: sum.splits)
qed

lemmas create_eval =
  createItem_def generateID_def addTimestamps_def now_def uuid_v4_def send_def Let_def

section \<open>The commands of a batch creation\<close>

lemma map_request:
  "map_effect (batchCreateItems_request env) batch (resp, w) =
     (map (\<lambda>it. PutRequest it (Some ALL_OLD)) (fst (map_effect (enrich env) batch w)),
      (resp @ fst (map_effect (enrich env) batch w), snd (map_effect (enrich env) batch w)))"
  by (induction batch arbitrary: resp w)
    (auto simp: split_beta Let_def batchCreateItems_request_def enrich_def)

lemma batchCreateItems_loop_trace:
  assumes "batchCreateItems_loop env table bs resp w = (r, w')"
  shows "\<exists>cmds. sent w' = sent w @ cmds
      \<and> length cmds \<le> length bs
      \<and> list_all (bulk_write_to table) cmds
      \<and> map (\<lambda>c. length (carried c)) cmds = map length (take (length cmds) bs)
      \<and> concat (map carried cmds)
          = fst (map_effect (enrich env) (concat (take (length cmds) bs)) w)
      \<and> (case r of
            Inr res \<Rightarrow> length cmds = length bs \<and> res = resp @ concat (map carried cmds)
              \<and> (\<exists>outs. replies env (sent w) cmds = map Inr outs)
          | Inl e \<Rightarrow> \<exists>outs err. replies env (sent w) cmds = map Inr outs @ [Inl err]
              \<and> e = Provider err)"
  using assms
proof (induction bs arbitrary: resp w r w')
  case Nil
  then show ?case by auto
next
  case (Cons batch bs)
  define E where "E = fst (map_effect (enrich env) batch w)"
  define w1 where "w1 = snd (map_effect (enrich env) batch w)"
  define cmd where "cmd = BatchWriteCommand [(table, map (\<lambda>it. PutRequest it (Some ALL_OLD)) E)]"
  define w2 where "w2 = w1\<lparr>sent := sent w1 @ [cmd]\<rparr>"
  have sent1: "sent w1 = sent w" unfolding w1_def by (simp add: map_enrich_world)
  have lenE: "length E = length batch" unfolding E_def by (rule length_map_effect)
  have car: "carried cmd = E" unfolding cmd_def by (rule carried_bulk)
  have bw: "bulk_write_to table cmd" unfolding cmd_def by simp
  have unfold: "batchCreateItems_loop env table (batch # bs) resp w =
      (case docClient env (sent w) cmd of
         Inl error \<Rightarrow> (Inl (Provider error), w2)
       | Inr res \<Rightarrow> batchCreateItems_loop env table bs (resp @ E) w2)"
    unfolding w2_def cmd_def
    by (simp add: map_request send_def Let_def E_def [symmetric] w1_def [symmetric] sent1)
  show ?case
  proof (cases "docClient env (sent w) cmd")
    case (Inl err)
    with Cons.prems unfold have r: "r = Inl (Provider err)" and w': "w' = w2" by simp_all
    have "sent w' = sent w @ [cmd]" by (simp add: w' w2_def sent1)
    moreover have "replies env (sent w) [cmd] = map Inr [] @ [Inl err]" using Inl by simp
    ultimately show ?thesis
      apply (intro exI [of _ "[cmd]"])
      apply (simp add: bw car lenE r E_def [symmetric])
      done
  next
    case (Inr out)
    with Cons.prems unfold
    have rest: "batchCreateItems_loop env table bs (resp @ E) w2 = (r, w')" by simp
    from Cons.IH [OF rest] obtain cmds where
      s: "sent w' = sent w2 @ cmds" and
      l: "length cmds \<le> length bs" and
      b: "list_all (bulk_write_to table) cmds" and
      m: "map (\<lambda>c. length (carried c)) cmds = map length (take (length cmds) bs)" and
      c: "concat (map carried cmds)
          = fst (map_effect (enrich env) (concat (take (length cmds) bs)) w2)" and
      o: "(case r of
            Inr res \<Rightarrow> length cmds = length bs \<and> res = (resp @ E) @ concat (map carried cmds)
              \<and> (\<exists>outs. replies env (sent w2) cmds = map Inr outs)
          | Inl e \<Rightarrow> \<exists>outs err. replies env (sent w2) cmds = map Inr outs @ [Inl err]
              \<and> e = Provider err)"
      by blast
    have sent2: "sent w2 = sent w @ [cmd]" by (simp add: w2_def sent1)
    have c': "concat (map carried cmds)
          = fst (map_effect (enrich env) (concat (take (length cmds) bs)) w1)"
      using c by (simp add: w2_def map_enrich_sent)
    have conc: "concat (map carried (cmd # cmds))
          = fst (map_effect (enrich env) (concat (take (length (cmd # cmds)) (batch # bs))) w)"
      by (simp add: car c' map_effect_append E_def w1_def)
    have outcome: "(case r of
            Inr res \<Rightarrow> length (cmd # cmds) = length (batch # bs)
              \<and> res = resp @ concat (map carried (cmd # cmds))
              \<and> (\<exists>outs. replies env (sent w) (cmd # cmds) = map Inr outs)
          | Inl e \<Rightarrow> \<exists>outs err. replies env (sent w) (cmd # cmds) = map Inr outs @ [Inl err]
              \<and> e = Provider err)"
    proof (cases r)
      case (Inl e)
      with o obtain outs err where
        "replies env (sent w2) cmds = map Inr outs @ [Inl err]" "e = Provider err" by auto
      then have "replies env (sent w) (cmd # cmds) = map Inr (out # outs) @ [Inl err]
          \<and> e = Provider err"
        using Inr by (simp add: sent2)
      then have "\<exists>outs err. replies env (sent w) (cmd # cmds) = map Inr outs @ [Inl err]
          \<and> e = Provider err"
        by (intro exI)
      with Inl show ?thesis by (simp del: replies.simps)
    next
      case (Inr res)
      with o obtain outs where
        "length cmds = length bs" "res = (resp @ E) @ concat (map carried cmds)"
        "replies env (sent w2) cmds = map Inr outs" by auto
      moreover from this have "replies env (sent w) (cmd # cmds) = map Inr (out # outs)"
        using \<open>docClient env (sent w) cmd = Inr out\<close> by (simp add: sent2)
      then have "\<exists>outs. replies env (sent w) (cmd # cmds) = map Inr outs"
        by (intro exI)
      ultimately show ?thesis using Inr by (simp add: car del: replies.simps)
    qed
    show ?thesis
      apply (intro exI [of _ "cmd # cmds"] conjI)
      subgoal by (simp add: s sent2)
      subgoal using l by simp
      subgoal using b bw by simp
      subgoal using m by (simp add: car lenE)
      subgoal by (rule conc)
      subgoal by (rule outcome)
      done
  qed
qed

lemma batchCreateItems_trace:
  assumes "batchCreateItems env items table w = Some (r, w')"
  shows "\<exists>cmds. sent w' = sent w @ cmds
      \<and> length cmds \<le> (length items + 24) div 25
      \<and> list_all (bulk_write_to table) cmds
      \<and> map carried cmds
          = map (\<lambda>j. slice_from (fst (map_effect (enrich env) items w)) (j * 25) (j * 25 + 25))
              [0 ..< length cmds]
      \<and> (case r of
            Inr res \<Rightarrow> length cmds = (length items + 24) div 25
              \<and> res = fst (map_effect (enrich env) items w)
              \<and> (\<exists>outs. replies env (sent w) cmds = map Inr outs)
          | Inl e \<Rightarrow> \<exists>outs err. replies env (sent w) cmds = map Inr outs @ [Inl err]
              \<and> e = Provider err)"
proof -
  let ?K = "(length items + 24) div 25"
  let ?chunks = "\<lambda>xs. map (\<lambda>j. slice_from xs (j * 25) (j * 25 + 25)) [0 ..< ?K]"
  let ?E = "fst (map_effect (enrich env) items w)"
  have lenE: "length ?E = length items" by (rule length_map_effect)
  have cb: "createBatches items 25 = Some (?chunks items)"
    using createBatches_closed [of 25 items] by (simp add: add.commute)
  with assms have "batchCreateItems_loop env table (?chunks items) [] w = (r, w')"
    by (simp add: batchCreateItems_def)
  from batchCreateItems_loop_trace [OF this] obtain cmds where
    s: "sent w' = sent w @ cmds" and
    l: "length cmds \<le> ?K" and
    b: "list_all (bulk_write_to table) cmds" and
    m: "map (\<lambda>c. length (carried c)) cmds = map length (take (length cmds) (?chunks items))" and
    c: "concat (map carried cmds)
          = fst (map_effect (enrich env) (concat (take (length cmds) (?chunks items))) w)" and
    o: "(case r of
            Inr res \<Rightarrow> length cmds = length (?chunks items) \<and> res = [] @ concat (map carried cmds)
              \<and> (\<exists>outs. replies env (sent w) cmds = map Inr outs)
          | Inl e \<Rightarrow> \<exists>outs err. replies env (sent w) cmds = map Inr outs @ [Inl err]
              \<and> e = Provider err)"
    by auto
  let ?k = "length cmds"
  have tk: "take ?k (?chunks xs) = map (\<lambda>j. slice_from xs (j * 25) (j * 25 + 25)) [0 ..< ?k]" for xs :: "item list"
    using l by (simp add: take_map min_def)
  have pre: "concat (take ?k (?chunks items)) = take (?k * 25) items"
    using concat_take_chunks [of ?k items 25 ?K] l by (simp add: min_def)
  have "fst (map_effect (enrich env) (take (?k * 25) items) w) = take (?k * 25) ?E"
    by (rule map_effect_take)
  with c pre have c': "concat (map carried cmds) = take (?k * 25) ?E" by simp
  also have "\<dots> = concat (take ?k (?chunks ?E))"
    using concat_take_chunks [of ?k ?E 25 ?K] l by (simp add: min_def)
  finally have "concat (map carried cmds) = concat (take ?k (?chunks ?E))" .
  moreover have "map length (map carried cmds) = map length (take ?k (?chunks ?E))"
    using m chunk_lengths_cong [OF lenE, of 25 "[0 ..< ?k]"] by (simp add: tk comp_def)
  ultimately have eq: "map carried cmds = take ?k (?chunks ?E)" by (rule same_chunks)
  have out: "(case r of
            Inr res \<Rightarrow> length cmds = ?K \<and> res = ?E
              \<and> (\<exists>outs. replies env (sent w) cmds = map Inr outs)
          | Inl e \<Rightarrow> \<exists>outs err. replies env (sent w) cmds = map Inr outs @ [Inl err]
              \<and> e = Provider err)"
  proof (cases r)
    case (Inl e)
    with o show ?thesis by simp
  next
    case (Inr res)
    with o have k: "?k = ?K" and res: "res = concat (map carried cmds)"
      and rep: "\<exists>outs. replies env (sent w) cmds = map Inr outs" by simp_all
    have "25 * ?K \<ge> length items" using ceil_times_ge [of 25 "length items"] by (simp add: mult.commute)
    with c' k res lenE have "res = ?E" by (simp add: mult.commute)
    with Inr k rep show ?thesis by simp
  qed
  from s l b eq out show ?thesis unfolding tk by blast
qed

lemma batchCreateItems_result:
  assumes "batchCreateItems env items table w = Some (Inr result, w')"
  shows "result = fst (map_effect (enrich env) items w)"
proof -
  let ?bs = "map (\<lambda>j. slice_from items (j * 25) (j * 25 + 25)) [0 ..< (length items + 25 - 1) div 25]"
  have cb: "createBatches items 25 = Some ?bs" by (rule createBatches_closed) simp
  with assms have "batchCreateItems_loop env table ?bs [] w = (Inr result, w')"
    by (simp add: batchCreateItems_def)
  from batchCreateItems_loop_trace [OF this] obtain cmds where
    "length cmds = length ?bs" "result = concat (map carried cmds)"
    "concat (map carried cmds) = fst (map_effect (enrich env) (concat (take (length cmds) ?bs)) w)"
    by auto
  moreover have "concat ?bs = items"
    using concat_chunks_upto [of items 25 "(length items + 25 - 1) div 25"]
      ceil_times_ge [of 25 "length items"] by simp
  ultimately show ?thesis by simp
qed

text \<open>The operation settles, and it is fulfilled when the client rejects nothing.\<close>

lemma batchCreateItems_settles: "\<exists>r w'. batchCreateItems env items table w = Some (r, w')"
  by (cases "batchCreateItems_loop env table
        (map (\<lambda>j. slice_from items (j * 25) (j * 25 + 25)) [0 ..< (length items + 25 - 1) div 25])
        [] w")
    (simp add: batchCreateItems_def createBatches_closed)

lemma batchCreateItems_loop_accepted:
  assumes "\<And>history command. \<exists>out. docClient env history command = Inr out"
  shows "\<exists>res w'. batchCreateItems_loop env table bs resp w = (Inr res, w')"
proof (induction bs arbitrary: resp w)
  case Nil
  show ?case by simp
next
  case (Cons batch bs)
  obtain putRequests resp1 w1 where
    m: "map_effect (batchCreateItems_request env) batch (resp, w) = (putRequests, (resp1, w1))"
    by (metis prod.exhaust)
  obtain out where "docClient env (sent w1) (BatchWriteCommand [(table, putRequests)]) = Inr out"
    using assms by blast
  with Cons.IH show ?case by (simp add: m send_def)
qed

lemma batchCreateItems_accepted:
  assumes "\<And>history command. \<exists>out. docClient env history command = Inr out"
  shows "\<exists>res w'. batchCreateItems env items table w = Some (Inr res, w')"
  using batchCreateItems_loop_accepted [OF assms]
  by (simp add: batchCreateItems_def createBatches_closed)

section \<open>Create operations\<close>

text \<open>
  Claim C2, as the code has it. \<^verbatim>\<open>addTimestamps\<close> reads the clock twice: the enriched
  record of \<^verbatim>\<open>createItem\<close> carries the first reading as \<^verbatim>\<open>createdAt\<close> and the second as
  \<^verbatim>\<open>updatedAt\<close>, both integers of epoch milliseconds, and so does every record of
  \<^verbatim>\<open>batchCreateItems\<close> (which always settles), the i-th record with the readings \<open>2 i\<close>
  and \<open>2 i + 1\<close> after the start. The two attributes are equal exactly when the two
  readings are.
\<close>

theorem creation_timestamps:
  "(createItem env data table w = (Inr item, w') \<longrightarrow>
      get_prop item ''createdAt'' = Num (Date_now env (clock_reads w))
    \<and> get_prop item ''updatedAt'' = Num (Date_now env (clock_reads w + 1))
    \<and> (get_prop item ''createdAt'' = get_prop item ''updatedAt''
        \<longleftrightarrow> Date_now env (clock_reads w) = Date_now env (clock_reads w + 1)))
   \<and> (batchCreateItems env items table w = Some (Inr result, w'') \<longrightarrow>
      length result = length items
    \<and> (\<forall>i < length items.
          get_prop (result ! i) ''createdAt'' = Num (Date_now env (clock_reads w + 2 * i))
        \<and> get_prop (result ! i) ''updatedAt'' = Num (Date_now env (clock_reads w + 2 * i + 1))))
   \<and> batchCreateItems env items table w \<noteq> None"
proof (intro conjI impI)
  assume "createItem env data table w = (Inr item, w')"
  then have item: "item = fst (enrich env data w)"
    by (simp add: createItem_result split: sum.splits)
  show "get_prop item ''createdAt'' = Num (Date_now env (clock_reads w))"
    and "get_prop item ''updatedAt'' = Num (Date_now env (clock_reads w + 1))"
    by (simp_all add: item get_prop_enrich)
  then show "get_prop item ''createdAt'' = get_prop item ''updatedAt''
        \<longleftrightarrow> Date_now env (clock_reads w) = Date_now env (clock_reads w + 1)"
    by simp
next
  assume "batchCreateItems env items table w = Some (Inr result, w'')"
  then have result: "result = fst (map_effect (enrich env) items w)"
    by (rule batchCreateItems_result)
  show "length result = length items" by (simp add: result length_map_effect)
  show "\<forall>i < length items.
          get_prop (result ! i) ''createdAt'' = Num (Date_now env (clock_reads w + 2 * i))
        \<and> get_prop (result ! i) ''updatedAt'' = Num (Date_now env (clock_reads w + 2 * i + 1))"
  proof (intro allI impI)
    fix i assume "i < length items"
    then show "get_prop (result ! i) ''createdAt'' = Num (Date_now env (clock_reads w + 2 * i))
        \<and> get_prop (result ! i) ''updatedAt'' = Num (Date_now env (clock_reads w + 2 * i + 1))"
      by (simp add: result map_effect_nth get_prop_enrich clock_after_enrich)
  qed
next
  show "batchCreateItems env items table w \<noteq> None"
    using batchCreateItems_settles [of env items table w] by auto
qed

theorem creation_timestamps_witness:
  "createItem (sample_env accepting) [(''name'', Str ''Ann'')] ''users'' initial
     = (Inr [(''name'', Str ''Ann''), (''id'', Str ''3f2b8c1e-5d4a-4e6f-9a7b-012345678900''),
             (''createdAt'', Num 1700000000000), (''updatedAt'', Num 1700000000001)],
        \<lparr>clock_reads = 2, uuid_calls = 1,
         sent = [PutCommand ''users''
           [(''name'', Str ''Ann''), (''id'', Str ''3f2b8c1e-5d4a-4e6f-9a7b-012345678900''),
            (''createdAt'', Num 1700000000000), (''updatedAt'', Num 1700000000001)]
           (Some ALL_OLD)]\<rparr>)
   \<and> (\<exists>result w'.
        batchCreateItems (sample_env accepting) [[(''name'', Str ''Ann'')], [(''id'', Str ''u2'')]]
          ''users'' initial = Some (Inr result, w')
      \<and> length result = 2
      \<and> get_prop (result ! 0) ''createdAt'' = Num 1700000000000
      \<and> get_prop (result ! 0) ''updatedAt'' = Num 1700000000001
      \<and> get_prop (result ! 1) ''createdAt'' = Num 1700000000002
      \<and> get_prop (result ! 1) ''updatedAt'' = Num 1700000000003)"
proof -
  let ?items = "[[(''name'', Str ''Ann'')], [(''id'', Str ''u2'')]]"
  have a: "createItem (sample_env accepting) [(''name'', Str ''Ann'')] ''users'' initial
     = (Inr [(''name'', Str ''Ann''), (''id'', Str ''3f2b8c1e-5d4a-4e6f-9a7b-012345678900''),
             (''createdAt'', Num 1700000000000), (''updatedAt'', Num 1700000000001)],
        \<lparr>clock_reads = 2, uuid_calls = 1,
         sent = [PutCommand ''users''
           [(''name'', Str ''Ann''), (''id'', Str ''3f2b8c1e-5d4a-4e6f-9a7b-012345678900''),
            (''createdAt'', Num 1700000000000), (''updatedAt'', Num 1700000000001)]
           (Some ALL_OLD)]\<rparr>)"
    by (simp add: create_eval sample_eval object_eval numeral_2_eq_2)
  obtain result w' where
    b': "batchCreateItems (sample_env accepting) ?items ''users'' initial = Some (Inr result, w')"
    using batchCreateItems_accepted [of "sample_env accepting" ?items "''users''" initial]
    by (auto simp: sample_env_def accepting_def)
  from creation_timestamps [where env = "sample_env accepting" and w = initial and items = ?items
      and table = "''users''" and result = result and w'' = w']
  have "length result = 2
      \<and> (\<forall>i < 2. get_prop (result ! i) ''createdAt'' = Num (1700000000000 + 2 * int i)
        \<and> get_prop (result ! i) ''updatedAt'' = Num (1700000000000 + 2 * int i + 1))"
    using b' by (simp add: sample_eval)
  then have "length result = 2
      \<and> get_prop (result ! 0) ''createdAt'' = Num 1700000000000
      \<and> get_prop (result ! 0) ''updatedAt'' = Num 1700000000001
      \<and> get_prop (result ! 1) ''createdAt'' = Num 1700000000002
      \<and> get_prop (result ! 1) ''updatedAt'' = Num 1700000000003"
    by (auto dest: spec [of _ 0])
  with a b' show ?thesis by blast
qed

text \<open>
  Claim C2 as the specification words it, with \<^verbatim>\<open>createdAt\<close> equal to \<^verbatim>\<open>updatedAt\<close>, fails
  on the clock of the sample, which advances by a millisecond between the two readings:
  the item that \<^verbatim>\<open>createItem\<close> returns has an \<^verbatim>\<open>updatedAt\<close> later than its \<^verbatim>\<open>createdAt\<close>.
\<close>

theorem creation_timestamps_differ:
  "fst (createItem (sample_env accepting) [(''name'', Str ''Ann'')] ''users'' initial)
     = Inr [(''name'', Str ''Ann''), (''id'', Str ''3f2b8c1e-5d4a-4e6f-9a7b-012345678900''),
            (''createdAt'', Num 1700000000000), (''updatedAt'', Num 1700000000001)]
   \<and> get_prop [(''name'', Str ''Ann''), (''id'', Str ''3f2b8c1e-5d4a-4e6f-9a7b-012345678900''),
            (''createdAt'', Num 1700000000000), (''updatedAt'', Num 1700000000001)] ''createdAt''
     \<noteq> get_prop [(''name'', Str ''Ann''), (''id'', Str ''3f2b8c1e-5d4a-4e6f-9a7b-012345678900''),
            (''createdAt'', Num 1700000000000), (''updatedAt'', Num 1700000000001)] ''updatedAt''"
  by (simp add: create_eval sample_eval object_eval numeral_2_eq_2)

subsection \<open>The identifier of a created item\<close>

lemma filter_take_less:
  assumes "j < i" and "i \<le> length xs" and "P (xs ! j)"
  shows "length (filter P (take j xs)) < length (filter P (take i xs))"
proof -
  have "take i xs = take j xs @ take (i - j) (drop j xs)"
    using assms take_add [of j "i - j" xs] by simp
  moreover have "drop j xs = xs ! j # drop (Suc j) xs"
    using assms by (simp add: Cons_nth_drop_Suc)
  moreover have "i - j = Suc (i - Suc j)"
    using assms by simp
  ultimately have "take i xs = take j xs @ xs ! j # take (i - Suc j) (drop (Suc j) xs)"
    by simp
  with assms(3) show ?thesis by simp
qed

lemma filter_take_total:
  "i < length xs \<Longrightarrow> P (xs ! i) \<Longrightarrow> length (filter P (take i xs)) < length (filter P xs)"
  using filter_take_less [of i "length xs" xs P] by simp

text \<open>
  A generator whose tokens are never empty and never repeat keeps the contract for any
  number of calls.
\<close>

lemma unique_tokens_global:
  assumes "\<forall>n. uuid env n \<noteq> []" and "inj (uuid env)"
  shows "unique_tokens env n"
  using assms by (auto simp: unique_tokens_def dest: injD)

lemma unique_tokens_nonempty: "unique_tokens env n \<Longrightarrow> i < n \<Longrightarrow> uuid env i \<noteq> []"
  by (simp add: unique_tokens_def)

lemma unique_tokens_distinct:
  "unique_tokens env n \<Longrightarrow> i < n \<Longrightarrow> j < i \<Longrightarrow> uuid env i \<noteq> uuid env j"
  by (rule not_sym) (simp add: unique_tokens_def)

lemma lacks_id_not_empty: "lacks_id d \<Longrightarrow> get_prop d ''id'' \<noteq> Str []"
  by (auto simp: lacks_id_def get_prop_absent)

text \<open>The calls of the generator that a fulfilled batch creation has made.\<close>

lemma batchCreateItems_loop_calls:
  assumes "batchCreateItems_loop env table bs resp w = (Inr res, w')"
  shows "uuid_calls w' = uuid_calls (snd (map_effect (enrich env) (concat bs) w))"
  using assms
proof (induction bs arbitrary: resp w)
  case Nil
  then show ?case by simp
next
  case (Cons batch bs)
  let ?w1 = "snd (map_effect (enrich env) batch w)"
  let ?cmd = "BatchWriteCommand
    [(table, map (\<lambda>it. PutRequest it (Some ALL_OLD)) (fst (map_effect (enrich env) batch w)))]"
  from Cons.prems have
    "batchCreateItems_loop env table bs (resp @ fst (map_effect (enrich env) batch w))
       (?w1\<lparr>sent := sent ?w1 @ [?cmd]\<rparr>) = (Inr res, w')"
    by (simp add: map_request send_def Let_def split: sum.splits)
  from Cons.IH [OF this] show ?case
    by (simp add: map_effect_append map_enrich_sent)
qed

lemma batchCreateItems_calls:
  assumes "batchCreateItems env items table w = Some (Inr result, w')"
    and "\<forall>d \<in> set items. is_object d"
  shows "uuid_calls w' = uuid_calls w + length (filter lacks_id items)"
proof -
  let ?bs = "map (\<lambda>j. slice_from items (j * 25) (j * 25 + 25)) [0 ..< (length items + 25 - 1) div 25]"
  have cb: "createBatches items 25 = Some ?bs" by (rule createBatches_closed) simp
  with assms have "batchCreateItems_loop env table ?bs [] w = (Inr result, w')"
    by (simp add: batchCreateItems_def)
  then have "uuid_calls w' = uuid_calls (snd (map_effect (enrich env) (concat ?bs) w))"
    by (rule batchCreateItems_loop_calls)
  moreover have "concat ?bs = items"
    using concat_chunks_upto [of items 25 "(length items + 25 - 1) div 25"]
      ceil_times_ge [of 25 "length items"] by simp
  ultimately show ?thesis using uuid_after_enrich [OF assms(2), of env w] by simp
qed

text \<open>The identifier of the i-th item that a fulfilled batch creation returns.\<close>

lemma batchCreateItems_ids:
  assumes "batchCreateItems env items table w = Some (Inr result, w')"
    and "\<forall>d \<in> set items. is_object d" and "i < length items"
  shows "has_prop ''id'' (result ! i)"
    and "get_prop (result ! i) ''id'' \<noteq> Undefined"
    and "get_prop (result ! i) ''id'' \<noteq> Null"
    and "get_prop (result ! i) ''id'' =
      (if lacks_id (items ! i)
       then Str (uuid env (uuid_calls w + length (filter lacks_id (take i items))))
       else get_prop (items ! i) ''id'')"
proof -
  let ?w = "snd (map_effect (enrich env) (take i items) w)"
  from assms have result: "result = fst (map_effect (enrich env) items w)"
    by (simp add: batchCreateItems_result)
  from assms have oi: "is_object (items ! i)" by simp
  have "\<forall>d \<in> set (take i items). is_object d" using assms(2) by (auto dest: in_set_takeD)
  then have u: "uuid_calls ?w = uuid_calls w + length (filter lacks_id (take i items))"
    by (rule uuid_after_enrich)
  have r: "result ! i = fst (enrich env (items ! i) ?w)"
    using assms(3) by (simp add: result map_effect_nth)
  show "has_prop ''id'' (result ! i)"
    and "get_prop (result ! i) ''id'' \<noteq> Undefined"
    and "get_prop (result ! i) ''id'' \<noteq> Null"
    and "get_prop (result ! i) ''id'' =
      (if lacks_id (items ! i)
       then Str (uuid env (uuid_calls w + length (filter lacks_id (take i items))))
       else get_prop (items ! i) ''id'')"
    using enrich_id [OF oi, of env ?w] by (simp_all add: r u)
qed

text \<open>
  Claim C3, as the code has it. \<^verbatim>\<open>createItem\<close> attaches a freshly generated identifier as
  \<^verbatim>\<open>id\<close> when the record's own \<^verbatim>\<open>id\<close> is absent, undefined or null: the token of the next
  call of the generator, which this operation makes. It keeps the caller's value
  otherwise, whatever it is, and does not call the generator. The returned item always
  has an \<^verbatim>\<open>id\<close> that is neither undefined nor null. When the generator keeps its contract
  for the calls made so far (no token is empty, none is returned twice), a generated
  \<^verbatim>\<open>id\<close> is not empty and differs from every token that the generator returned before,
  and the \<^verbatim>\<open>id\<close> of the returned item is the empty string only when the caller supplied
  the empty string. The same holds for every record of \<^verbatim>\<open>batchCreateItems\<close>, where the
  i-th record takes the token after those of the records before it, so that the generated
  identifiers of a batch differ from each other.
\<close>

theorem creation_identifier:
  "(createItem env data table w = (Inr item, w') \<and> is_object data \<longrightarrow>
      has_prop ''id'' item \<and> get_prop item ''id'' \<noteq> Undefined \<and> get_prop item ''id'' \<noteq> Null
    \<and> (lacks_id data \<longrightarrow>
          get_prop item ''id'' = Str (uuid env (uuid_calls w)) \<and> uuid_calls w' = uuid_calls w + 1)
    \<and> (\<not> lacks_id data \<longrightarrow>
          get_prop item ''id'' = get_prop data ''id'' \<and> uuid_calls w' = uuid_calls w)
    \<and> (unique_tokens env (uuid_calls w') \<longrightarrow>
          (lacks_id data \<longrightarrow>
              get_prop item ''id'' \<noteq> Str []
            \<and> (\<forall>n < uuid_calls w. get_prop item ''id'' \<noteq> Str (uuid env n)))
        \<and> (get_prop item ''id'' = Str [] \<longleftrightarrow> get_prop data ''id'' = Str [])))
   \<and> (batchCreateItems env items table w = Some (Inr result, w'') \<and> (\<forall>d \<in> set items. is_object d)
      \<longrightarrow> length result = length items
    \<and> uuid_calls w'' = uuid_calls w + length (filter lacks_id items)
    \<and> (\<forall>i < length items.
          has_prop ''id'' (result ! i)
        \<and> get_prop (result ! i) ''id'' \<noteq> Undefined \<and> get_prop (result ! i) ''id'' \<noteq> Null
        \<and> (lacks_id (items ! i) \<longrightarrow> get_prop (result ! i) ''id''
              = Str (uuid env (uuid_calls w + length (filter lacks_id (take i items)))))
        \<and> (\<not> lacks_id (items ! i) \<longrightarrow>
              get_prop (result ! i) ''id'' = get_prop (items ! i) ''id''))
    \<and> (unique_tokens env (uuid_calls w'') \<longrightarrow>
        (\<forall>i < length items.
            (lacks_id (items ! i) \<longrightarrow>
                get_prop (result ! i) ''id'' \<noteq> Str []
              \<and> (\<forall>n < uuid_calls w. get_prop (result ! i) ''id'' \<noteq> Str (uuid env n))
              \<and> (\<forall>j < i. lacks_id (items ! j) \<longrightarrow>
                    get_prop (result ! i) ''id'' \<noteq> get_prop (result ! j) ''id''))
          \<and> (get_prop (result ! i) ''id'' = Str [] \<longleftrightarrow> get_prop (items ! i) ''id'' = Str []))))
   \<and> batchCreateItems env items table w \<noteq> None"
proof (intro conjI)
  show "createItem env data table w = (Inr item, w') \<and> is_object data \<longrightarrow>
      has_prop ''id'' item \<and> get_prop item ''id'' \<noteq> Undefined \<and> get_prop item ''id'' \<noteq> Null
    \<and> (lacks_id data \<longrightarrow>
          get_prop item ''id'' = Str (uuid env (uuid_calls w)) \<and> uuid_calls w' = uuid_calls w + 1)
    \<and> (\<not> lacks_id data \<longrightarrow>
          get_prop item ''id'' = get_prop data ''id'' \<and> uuid_calls w' = uuid_calls w)
    \<and> (unique_tokens env (uuid_calls w') \<longrightarrow>
          (lacks_id data \<longrightarrow>
              get_prop item ''id'' \<noteq> Str []
            \<and> (\<forall>n < uuid_calls w. get_prop item ''id'' \<noteq> Str (uuid env n)))
        \<and> (get_prop item ''id'' = Str [] \<longleftrightarrow> get_prop data ''id'' = Str []))"
  proof (intro impI, elim conjE)
    assume c: "createItem env data table w = (Inr item, w')" and o: "is_object data"
    from c have item: "item = fst (enrich env data w)"
      and w': "w' = (snd (enrich env data w))\<lparr>sent := sent w @ [PutCommand table item (Some ALL_OLD)]\<rparr>"
      by (auto simp: createItem_result split: sum.splits)
    note e = enrich_id [OF o, of env w]
    have 1: "has_prop ''id'' item \<and> get_prop item ''id'' \<noteq> Undefined \<and> get_prop item ''id'' \<noteq> Null"
      using e by (simp add: item)
    have 2: "get_prop item ''id'' = Str (uuid env (uuid_calls w)) \<and> uuid_calls w' = uuid_calls w + 1"
      if "lacks_id data"
      using e that by (simp add: item w')
    have 3: "get_prop item ''id'' = get_prop data ''id'' \<and> uuid_calls w' = uuid_calls w"
      if "\<not> lacks_id data"
      using e that by (simp add: item w')
    have 4: "get_prop item ''id'' \<noteq> Str []
        \<and> (\<forall>n < uuid_calls w. get_prop item ''id'' \<noteq> Str (uuid env n))"
      if l: "lacks_id data" and u: "unique_tokens env (uuid_calls w')"
    proof -
      from 2 [OF l] have g: "get_prop item ''id'' = Str (uuid env (uuid_calls w))"
        and n: "uuid_calls w < uuid_calls w'" by simp_all
      have "get_prop item ''id'' \<noteq> Str []"
        using unique_tokens_nonempty [OF u n] by (simp add: g)
      moreover have "get_prop item ''id'' \<noteq> Str (uuid env k)" if "k < uuid_calls w" for k
        using unique_tokens_distinct [OF u n that] by (simp add: g)
      ultimately show ?thesis by simp
    qed
    have 5: "get_prop item ''id'' = Str [] \<longleftrightarrow> get_prop data ''id'' = Str []"
      if u: "unique_tokens env (uuid_calls w')"
    proof (cases "lacks_id data")
      case True
      from 4 [OF True u] lacks_id_not_empty [OF True] show ?thesis by simp
    next
      case False
      from 3 [OF False] show ?thesis by simp
    qed
    from 1 2 3 4 5 show "has_prop ''id'' item \<and> get_prop item ''id'' \<noteq> Undefined \<and> get_prop item ''id'' \<noteq> Null
    \<and> (lacks_id data \<longrightarrow>
          get_prop item ''id'' = Str (uuid env (uuid_calls w)) \<and> uuid_calls w' = uuid_calls w + 1)
    \<and> (\<not> lacks_id data \<longrightarrow>
          get_prop item ''id'' = get_prop data ''id'' \<and> uuid_calls w' = uuid_calls w)
    \<and> (unique_tokens env (uuid_calls w') \<longrightarrow>
          (lacks_id data \<longrightarrow>
              get_prop item ''id'' \<noteq> Str []
            \<and> (\<forall>n < uuid_calls w. get_prop item ''id'' \<noteq> Str (uuid env n)))
        \<and> (get_prop item ''id'' = Str [] \<longleftrightarrow> get_prop data ''id'' = Str []))"
      by (intro conjI impI) simp_all
  qed
next
  show "batchCreateItems env items table w = Some (Inr result, w'') \<and> (\<forall>d \<in> set items. is_object d)
      \<longrightarrow> length result = length items
    \<and> uuid_calls w'' = uuid_calls w + length (filter lacks_id items)
    \<and> (\<forall>i < length items.
          has_prop ''id'' (result ! i)
        \<and> get_prop (result ! i) ''id'' \<noteq> Undefined \<and> get_prop (result ! i) ''id'' \<noteq> Null
        \<and> (lacks_id (items ! i) \<longrightarrow> get_prop (result ! i) ''id''
              = Str (uuid env (uuid_calls w + length (filter lacks_id (take i items)))))
        \<and> (\<not> lacks_id (items ! i) \<longrightarrow>
              get_prop (result ! i) ''id'' = get_prop (items ! i) ''id''))
    \<and> (unique_tokens env (uuid_calls w'') \<longrightarrow>
        (\<forall>i < length items.
            (lacks_id (items ! i) \<longrightarrow>
                get_prop (result ! i) ''id'' \<noteq> Str []
              \<and> (\<forall>n < uuid_calls w. get_prop (result ! i) ''id'' \<noteq> Str (uuid env n))
              \<and> (\<forall>j < i. lacks_id (items ! j) \<longrightarrow>
                    get_prop (result ! i) ''id'' \<noteq> get_prop (result ! j) ''id''))
          \<and> (get_prop (result ! i) ''id'' = Str [] \<longleftrightarrow> get_prop (items ! i) ''id'' = Str [])))"
  proof (intro impI, elim conjE)
    assume b: "batchCreateItems env items table w = Some (Inr result, w'')"
      and o: "\<forall>d \<in> set items. is_object d"
    let ?c = "\<lambda>i. length (filter lacks_id (take i items))"
    let ?id = "\<lambda>i. get_prop (result ! i) ''id''"
    have len: "length result = length items"
      using batchCreateItems_result [OF b] by (simp add: length_map_effect)
    have calls: "uuid_calls w'' = uuid_calls w + length (filter lacks_id items)"
      using b o by (rule batchCreateItems_calls)
    note ids = batchCreateItems_ids [OF b o]
    have each: "has_prop ''id'' (result ! i)
        \<and> ?id i \<noteq> Undefined \<and> ?id i \<noteq> Null
        \<and> (lacks_id (items ! i) \<longrightarrow> ?id i = Str (uuid env (uuid_calls w + ?c i)))
        \<and> (\<not> lacks_id (items ! i) \<longrightarrow> ?id i = get_prop (items ! i) ''id'')"
      if "i < length items" for i
      using ids [OF that] by simp
    have gen: "?id i \<noteq> Str []
        \<and> (\<forall>n < uuid_calls w. ?id i \<noteq> Str (uuid env n))
        \<and> (\<forall>j < i. lacks_id (items ! j) \<longrightarrow> ?id i \<noteq> ?id j)"
      if i: "i < length items" and l: "lacks_id (items ! i)"
        and u: "unique_tokens env (uuid_calls w'')" for i
    proof -
      from ids(4) [OF i] l have g: "?id i = Str (uuid env (uuid_calls w + ?c i))" by simp
      from filter_take_total [OF i, of lacks_id] l
      have n: "uuid_calls w + ?c i < uuid_calls w''" by (simp add: calls)
      have a: "?id i \<noteq> Str []"
        using unique_tokens_nonempty [OF u n] by (simp add: g)
      have b: "?id i \<noteq> Str (uuid env k)" if "k < uuid_calls w" for k
      proof -
        from that have "k < uuid_calls w + ?c i" by simp
        from unique_tokens_distinct [OF u n this] show ?thesis by (simp add: g)
      qed
      have c: "\<forall>j < i. lacks_id (items ! j) \<longrightarrow> ?id i \<noteq> ?id j"
      proof (intro allI impI)
        fix j assume j: "j < i" and lj: "lacks_id (items ! j)"
        from j i have "j < length items" by simp
        from ids(4) [OF this] lj have gj: "?id j = Str (uuid env (uuid_calls w + ?c j))" by simp
        from filter_take_less [of j i items lacks_id] j i lj have "?c j < ?c i" by simp
        then have "uuid_calls w + ?c j < uuid_calls w + ?c i" by simp
        from unique_tokens_distinct [OF u n this] show "?id i \<noteq> ?id j" by (simp add: g gj)
      qed
      from a b c show ?thesis by simp
    qed
    have empty: "?id i = Str [] \<longleftrightarrow> get_prop (items ! i) ''id'' = Str []"
      if i: "i < length items" and u: "unique_tokens env (uuid_calls w'')" for i
    proof (cases "lacks_id (items ! i)")
      case True
      from gen [OF i True u] lacks_id_not_empty [OF True] show ?thesis by simp
    next
      case False
      with ids(4) [OF i] show ?thesis by simp
    qed
    from len calls each gen empty
    show "length result = length items
    \<and> uuid_calls w'' = uuid_calls w + length (filter lacks_id items)
    \<and> (\<forall>i < length items.
          has_prop ''id'' (result ! i)
        \<and> get_prop (result ! i) ''id'' \<noteq> Undefined \<and> get_prop (result ! i) ''id'' \<noteq> Null
        \<and> (lacks_id (items ! i) \<longrightarrow> get_prop (result ! i) ''id''
              = Str (uuid env (uuid_calls w + length (filter lacks_id (take i items)))))
        \<and> (\<not> lacks_id (items ! i) \<longrightarrow>
              get_prop (result ! i) ''id'' = get_prop (items ! i) ''id''))
    \<and> (unique_tokens env (uuid_calls w'') \<longrightarrow>
        (\<forall>i < length items.
            (lacks_id (items ! i) \<longrightarrow>
                get_prop (result ! i) ''id'' \<noteq> Str []
              \<and> (\<forall>n < uuid_calls w. get_prop (result ! i) ''id'' \<noteq> Str (uuid env n))
              \<and> (\<forall>j < i. lacks_id (items ! j) \<longrightarrow>
                    get_prop (result ! i) ''id'' \<noteq> get_prop (result ! j) ''id''))
          \<and> (get_prop (result ! i) ''id'' = Str [] \<longleftrightarrow> get_prop (items ! i) ''id'' = Str [])))"
      by (intro conjI impI allI) simp_all
  qed
next
  show "batchCreateItems env items table w \<noteq> None"
    using batchCreateItems_settles [of env items table w] by auto
qed

theorem creation_identifier_witness:
  "createItem (sample_env accepting) [(''name'', Str ''Ann'')] ''users'' initial
     = (Inr [(''name'', Str ''Ann''), (''id'', Str ''3f2b8c1e-5d4a-4e6f-9a7b-012345678900''),
             (''createdAt'', Num 1700000000000), (''updatedAt'', Num 1700000000001)],
        \<lparr>clock_reads = 2, uuid_calls = 1,
         sent = [PutCommand ''users''
           [(''name'', Str ''Ann''), (''id'', Str ''3f2b8c1e-5d4a-4e6f-9a7b-012345678900''),
            (''createdAt'', Num 1700000000000), (''updatedAt'', Num 1700000000001)]
           (Some ALL_OLD)]\<rparr>)
   \<and> is_object [(''name'', Str ''Ann'')] \<and> lacks_id [(''name'', Str ''Ann'')]
   \<and> createItem (sample_env accepting) [(''id'', Str ''u1''), (''name'', Str ''Bob'')] ''users'' initial
     = (Inr [(''id'', Str ''u1''), (''name'', Str ''Bob''),
             (''createdAt'', Num 1700000000000), (''updatedAt'', Num 1700000000001)],
        \<lparr>clock_reads = 2, uuid_calls = 0,
         sent = [PutCommand ''users''
           [(''id'', Str ''u1''), (''name'', Str ''Bob''),
            (''createdAt'', Num 1700000000000), (''updatedAt'', Num 1700000000001)]
           (Some ALL_OLD)]\<rparr>)
   \<and> is_object [(''id'', Str ''u1''), (''name'', Str ''Bob'')]
   \<and> \<not> lacks_id [(''id'', Str ''u1''), (''name'', Str ''Bob'')]
   \<and> unique_tokens (sample_env accepting) 2
   \<and> (\<exists>result w'.
        batchCreateItems (sample_env accepting)
          [[(''name'', Str ''Ann'')], [(''id'', Str ''u2'')], [(''id'', Null)]] ''users'' initial
          = Some (Inr result, w')
      \<and> length result = 3
      \<and> uuid_calls w' = 2
      \<and> get_prop (result ! 0) ''id'' = Str ''3f2b8c1e-5d4a-4e6f-9a7b-012345678900''
      \<and> get_prop (result ! 1) ''id'' = Str ''u2''
      \<and> get_prop (result ! 2) ''id'' = Str ''3f2b8c1e-5d4a-4e6f-9a7b-012345678901''
      \<and> get_prop (result ! 2) ''id'' \<noteq> get_prop (result ! 0) ''id''
      \<and> get_prop (result ! 0) ''id'' \<noteq> Str [] \<and> get_prop (result ! 2) ''id'' \<noteq> Str [])"
proof -
  let ?ann = "[(''name'', Str ''Ann'')]"
  let ?bob = "[(''id'', Str ''u1''), (''name'', Str ''Bob'')]"
  let ?items = "[[(''name'', Str ''Ann'')], [(''id'', Str ''u2'')], [(''id'', Null)]]"
  have a: "createItem (sample_env accepting) ?ann ''users'' initial
     = (Inr [(''name'', Str ''Ann''), (''id'', Str ''3f2b8c1e-5d4a-4e6f-9a7b-012345678900''),
             (''createdAt'', Num 1700000000000), (''updatedAt'', Num 1700000000001)],
        \<lparr>clock_reads = 2, uuid_calls = 1,
         sent = [PutCommand ''users''
           [(''name'', Str ''Ann''), (''id'', Str ''3f2b8c1e-5d4a-4e6f-9a7b-012345678900''),
            (''createdAt'', Num 1700000000000), (''updatedAt'', Num 1700000000001)]
           (Some ALL_OLD)]\<rparr>)"
    by (simp add: create_eval sample_eval object_eval numeral_2_eq_2)
  have oa: "is_object ?ann" "lacks_id ?ann"
    by (simp_all add: is_object_def Object_keys_def lacks_id_def object_eval)
  have b: "createItem (sample_env accepting) ?bob ''users'' initial
     = (Inr [(''id'', Str ''u1''), (''name'', Str ''Bob''),
             (''createdAt'', Num 1700000000000), (''updatedAt'', Num 1700000000001)],
        \<lparr>clock_reads = 2, uuid_calls = 0,
         sent = [PutCommand ''users''
           [(''id'', Str ''u1''), (''name'', Str ''Bob''),
            (''createdAt'', Num 1700000000000), (''updatedAt'', Num 1700000000001)]
           (Some ALL_OLD)]\<rparr>)"
    by (simp add: create_eval sample_eval object_eval)
  have ob: "is_object ?bob" "\<not> lacks_id ?bob"
    by (simp_all add: is_object_def Object_keys_def lacks_id_def object_eval)
  have u: "unique_tokens (sample_env accepting) 2"
    by (auto simp: unique_tokens_def sample_env_def numeral_2_eq_2 less_Suc_eq)
  obtain result w' where
    c: "batchCreateItems (sample_env accepting) ?items ''users'' initial = Some (Inr result, w')"
    using batchCreateItems_accepted [of "sample_env accepting" ?items "''users''" initial]
    by (auto simp: sample_env_def accepting_def)
  have oc: "\<forall>d \<in> set ?items. is_object d"
    by (simp add: is_object_def Object_keys_def)
  have l: "lacks_id [(''name'', Str ''Ann'')]" "\<not> lacks_id [(''id'', Str ''u2'')]"
    "lacks_id [(''id'', Null)]"
    by (simp_all add: lacks_id_def object_eval)
  note batch = creation_identifier
    [where env = "sample_env accepting" and w = initial and items = ?items
      and table = "''users''" and result = result and w'' = w',
      THEN conjunct2, THEN conjunct1, THEN mp, OF conjI, OF c oc]
  from batch have calls: "uuid_calls w' = 2"
    by (simp add: initial_def l)
  from calls u have u': "unique_tokens (sample_env accepting) (uuid_calls w')" by simp
  from batch have len: "length result = 3" by simp
  note each = batch [THEN conjunct2, THEN conjunct2, THEN conjunct1, rule_format]
  note fresh = batch [THEN conjunct2, THEN conjunct2, THEN conjunct2, THEN mp, OF u', rule_format]
  have id0: "get_prop (result ! 0) ''id'' = Str ''3f2b8c1e-5d4a-4e6f-9a7b-012345678900''"
    using each [of 0] l by (simp add: sample_env_def initial_def numeral_2_eq_2)
  have id1: "get_prop (result ! 1) ''id'' = Str ''u2''"
    using each [of 1] l by (simp add: get_prop_def)
  have id2: "get_prop (result ! 2) ''id'' = Str ''3f2b8c1e-5d4a-4e6f-9a7b-012345678901''"
    using each [of 2] l by (simp add: sample_env_def initial_def numeral_2_eq_2)
  have ne0: "get_prop (result ! 0) ''id'' \<noteq> Str []"
    using fresh [of 0] l by simp
  from fresh [of 2] l
  have ne2: "get_prop (result ! 2) ''id'' \<noteq> Str []"
    and "\<forall>j < 2. lacks_id (?items ! j) \<longrightarrow>
           get_prop (result ! 2) ''id'' \<noteq> get_prop (result ! j) ''id''"
    by simp_all
  from this(2) [rule_format, of 0] l
  have d: "get_prop (result ! 2) ''id'' \<noteq> get_prop (result ! 0) ''id''" by simp
  from len id0 id1 id2 d ne0 ne2 have "length result = 3
      \<and> get_prop (result ! 0) ''id'' = Str ''3f2b8c1e-5d4a-4e6f-9a7b-012345678900''
      \<and> get_prop (result ! 1) ''id'' = Str ''u2''
      \<and> get_prop (result ! 2) ''id'' = Str ''3f2b8c1e-5d4a-4e6f-9a7b-012345678901''
      \<and> get_prop (result ! 2) ''id'' \<noteq> get_prop (result ! 0) ''id''
      \<and> get_prop (result ! 0) ''id'' \<noteq> Str [] \<and> get_prop (result ! 2) ''id'' \<noteq> Str []"
    by (intro conjI)
  with c calls have
    "\<exists>result w'.
        batchCreateItems (sample_env accepting) ?items ''users'' initial = Some (Inr result, w')
      \<and> length result = 3
      \<and> uuid_calls w' = 2
      \<and> get_prop (result ! 0) ''id'' = Str ''3f2b8c1e-5d4a-4e6f-9a7b-012345678900''
      \<and> get_prop (result ! 1) ''id'' = Str ''u2''
      \<and> get_prop (result ! 2) ''id'' = Str ''3f2b8c1e-5d4a-4e6f-9a7b-012345678901''
      \<and> get_prop (result ! 2) ''id'' \<noteq> get_prop (result ! 0) ''id''
      \<and> get_prop (result ! 0) ''id'' \<noteq> Str [] \<and> get_prop (result ! 2) ''id'' \<noteq> Str []"
    by (intro exI [of _ result] exI [of _ w']) simp
  with a b oa ob u creation_identifier
    [where env = "sample_env accepting" and w = initial and data = ?ann and table = "''users''"]
    creation_identifier
    [where env = "sample_env accepting" and w = initial and data = ?bob and table = "''users''"]
  show ?thesis by (intro conjI)
qed

text \<open>
  Claim C3 as the specification words it, with an \<^verbatim>\<open>id\<close> that is never empty, fails for
  a caller that supplies the empty string as \<^verbatim>\<open>id\<close>: the item returned has the empty
  string as \<^verbatim>\<open>id\<close>.
\<close>

theorem creation_identifier_empty:
  "fst (createItem (sample_env accepting) [(''id'', Str []), (''name'', Str ''Ann'')] ''users'' initial)
     = Inr [(''id'', Str []), (''name'', Str ''Ann''),
            (''createdAt'', Num 1700000000000), (''updatedAt'', Num 1700000000001)]
   \<and> get_prop [(''id'', Str []), (''name'', Str ''Ann''),
            (''createdAt'', Num 1700000000000), (''updatedAt'', Num 1700000000001)] ''id''
     = Str []"
  by (simp add: create_eval sample_eval object_eval)

subsection \<open>Chunks and the order of the records\<close>

text \<open>
  Claim C1. \<^verbatim>\<open>batchCreateItems\<close> always settles, and it is fulfilled when the client
  rejects nothing. When it is fulfilled for a list of N records, it has sent exactly
  \<open>\<lceil>N / 25\<rceil>\<close> commands, each a bulk write to the table; the j-th of them carries the
  records \<open>25 j\<close> up to \<open>25 j + 25\<close> of the returned list, at most 25 of them; and the
  returned list has N records, the i-th being the enrichment of the i-th record of the
  input, with every attribute of it other than \<^verbatim>\<open>id\<close>, \<^verbatim>\<open>createdAt\<close> and
  \<^verbatim>\<open>updatedAt\<close> unchanged.
\<close>

theorem batchCreateItems_chunks:
  "\<exists>r w'. batchCreateItems env items table w = Some (r, w')
     \<and> ((\<forall>history command. \<exists>out. docClient env history command = Inr out)
          \<longrightarrow> (\<exists>result. r = Inr result))
     \<and> (\<forall>result. r = Inr result \<longrightarrow>
          (\<exists>cmds. sent w' = sent w @ cmds
             \<and> length cmds = (length items + 24) div 25
             \<and> length items \<le> 25 * length cmds \<and> 25 * length cmds < length items + 25
             \<and> (\<forall>j < length cmds. bulk_write_to table (cmds ! j)
                  \<and> carried (cmds ! j) = take 25 (drop (25 * j) result)
                  \<and> length (carried (cmds ! j)) \<le> 25)
             \<and> concat (map carried cmds) = result
             \<and> length result = length items
             \<and> result = fst (map_effect (enrich env) items w)
             \<and> ((\<forall>d \<in> set items. is_object d) \<longrightarrow>
                  (\<forall>i < length items. \<forall>k.
                     k \<noteq> ''id'' \<and> k \<noteq> ''createdAt'' \<and> k \<noteq> ''updatedAt'' \<longrightarrow>
                       get_prop (result ! i) k = get_prop (items ! i) k
                     \<and> (has_prop k (result ! i) \<longleftrightarrow> has_prop k (items ! i))))))"
proof -
  obtain r w' where h: "batchCreateItems env items table w = Some (r, w')"
    using batchCreateItems_settles by blast
  have accepted: "(\<forall>history command. \<exists>out. docClient env history command = Inr out)
          \<longrightarrow> (\<exists>result. r = Inr result)"
    using batchCreateItems_accepted [of env items table w] h by auto
  have fulfilled: "\<exists>cmds. sent w' = sent w @ cmds
             \<and> length cmds = (length items + 24) div 25
             \<and> length items \<le> 25 * length cmds \<and> 25 * length cmds < length items + 25
             \<and> (\<forall>j < length cmds. bulk_write_to table (cmds ! j)
                  \<and> carried (cmds ! j) = take 25 (drop (25 * j) result)
                  \<and> length (carried (cmds ! j)) \<le> 25)
             \<and> concat (map carried cmds) = result
             \<and> length result = length items
             \<and> result = fst (map_effect (enrich env) items w)
             \<and> ((\<forall>d \<in> set items. is_object d) \<longrightarrow>
                  (\<forall>i < length items. \<forall>k.
                     k \<noteq> ''id'' \<and> k \<noteq> ''createdAt'' \<and> k \<noteq> ''updatedAt'' \<longrightarrow>
                       get_prop (result ! i) k = get_prop (items ! i) k
                     \<and> (has_prop k (result ! i) \<longleftrightarrow> has_prop k (items ! i))))"
    if r: "r = Inr result" for result
  proof -
    let ?K = "(length items + 24) div 25"
    let ?E = "fst (map_effect (enrich env) items w)"
    from batchCreateItems_trace [OF h [unfolded r]] obtain cmds where
      s: "sent w' = sent w @ cmds" and
      b: "list_all (bulk_write_to table) cmds" and
      m: "map carried cmds = map (\<lambda>j. slice_from ?E (j * 25) (j * 25 + 25)) [0 ..< length cmds]" and
      k: "length cmds = ?K" and
      res: "result = ?E"
      by auto
    have len: "length result = length items" by (simp add: res length_map_effect)
    have ceil: "length items \<le> 25 * ?K" "25 * ?K < length items + 25" by arith+
    have each: "\<forall>j < length cmds. bulk_write_to table (cmds ! j)
          \<and> carried (cmds ! j) = take 25 (drop (25 * j) result)
          \<and> length (carried (cmds ! j)) \<le> 25"
    proof (intro allI impI)
      fix j assume j: "j < length cmds"
      then have "carried (cmds ! j) = map carried cmds ! j" by simp
      also have "\<dots> = take 25 (drop (25 * j) result)"
        unfolding m res using j by (rule nth_chunk)
      finally have c: "carried (cmds ! j) = take 25 (drop (25 * j) result)" .
      from b j have "bulk_write_to table (cmds ! j)" by (simp add: list_all_length)
      with c show "bulk_write_to table (cmds ! j)
          \<and> carried (cmds ! j) = take 25 (drop (25 * j) result)
          \<and> length (carried (cmds ! j)) \<le> 25" by simp
    qed
    have "concat (map carried cmds) = take (length cmds * 25) ?E"
      unfolding m by (rule concat_chunks_upto)
    with k ceil(1) have conc: "concat (map carried cmds) = result"
      by (simp add: res length_map_effect mult.commute)
    have frame: "(\<forall>d \<in> set items. is_object d) \<longrightarrow>
          (\<forall>i < length items. \<forall>k. k \<noteq> ''id'' \<and> k \<noteq> ''createdAt'' \<and> k \<noteq> ''updatedAt'' \<longrightarrow>
             get_prop (result ! i) k = get_prop (items ! i) k
           \<and> (has_prop k (result ! i) \<longleftrightarrow> has_prop k (items ! i)))"
      by (simp add: res map_effect_nth enrich_frame)
    from s k ceil each conc len res frame show ?thesis by (intro exI [of _ cmds]) simp
  qed
  from fulfilled have "\<forall>result. r = Inr result \<longrightarrow>
          (\<exists>cmds. sent w' = sent w @ cmds
             \<and> length cmds = (length items + 24) div 25
             \<and> length items \<le> 25 * length cmds \<and> 25 * length cmds < length items + 25
             \<and> (\<forall>j < length cmds. bulk_write_to table (cmds ! j)
                  \<and> carried (cmds ! j) = take 25 (drop (25 * j) result)
                  \<and> length (carried (cmds ! j)) \<le> 25)
             \<and> concat (map carried cmds) = result
             \<and> length result = length items
             \<and> result = fst (map_effect (enrich env) items w)
             \<and> ((\<forall>d \<in> set items. is_object d) \<longrightarrow>
                  (\<forall>i < length items. \<forall>k.
                     k \<noteq> ''id'' \<and> k \<noteq> ''createdAt'' \<and> k \<noteq> ''updatedAt'' \<longrightarrow>
                       get_prop (result ! i) k = get_prop (items ! i) k
                     \<and> (has_prop k (result ! i) \<longleftrightarrow> has_prop k (items ! i)))))"
    by (intro allI impI)
  with h accepted show ?thesis
    by (intro exI [of _ r] exI [of _ w'] conjI)
qed

theorem batchCreateItems_chunks_witness:
  "\<exists>result w'.
      batchCreateItems (sample_env accepting) (map (\<lambda>n. [(''n'', Num (int n))]) [0 ..< 30])
        ''users'' initial = Some (Inr result, w')
    \<and> map (\<lambda>c. length (carried c)) (sent w') = [25, 5]
    \<and> bulk_write_to ''users'' (sent w' ! 0) \<and> bulk_write_to ''users'' (sent w' ! 1)
    \<and> length result = 30
    \<and> get_prop (result ! 0) ''n'' = Num 0
    \<and> get_prop (result ! 29) ''n'' = Num 29"
proof -
  let ?items = "map (\<lambda>n. [(''n'', Num (int n))]) [0 ..< 30]"
  have acc: "\<forall>history command. \<exists>out. docClient (sample_env accepting) history command = Inr out"
    by (simp add: sample_env_def accepting_def)
  have o: "\<forall>d \<in> set ?items. is_object d" by (auto simp: is_object_def Object_keys_def)
  from batchCreateItems_chunks [of "sample_env accepting" ?items "''users''" initial]
  obtain r w' where
    h0: "batchCreateItems (sample_env accepting) ?items ''users'' initial = Some (r, w')" and
    a: "(\<forall>history command. \<exists>out. docClient (sample_env accepting) history command = Inr out)
          \<longrightarrow> (\<exists>result. r = Inr result)" and
    f: "\<forall>result. r = Inr result \<longrightarrow>
          (\<exists>cmds. sent w' = sent initial @ cmds
             \<and> length cmds = (length ?items + 24) div 25
             \<and> length ?items \<le> 25 * length cmds \<and> 25 * length cmds < length ?items + 25
             \<and> (\<forall>j < length cmds. bulk_write_to ''users'' (cmds ! j)
                  \<and> carried (cmds ! j) = take 25 (drop (25 * j) result)
                  \<and> length (carried (cmds ! j)) \<le> 25)
             \<and> concat (map carried cmds) = result
             \<and> length result = length ?items
             \<and> result = fst (map_effect (enrich (sample_env accepting)) ?items initial)
             \<and> ((\<forall>d \<in> set ?items. is_object d) \<longrightarrow>
                  (\<forall>i < length ?items. \<forall>k.
                     k \<noteq> ''id'' \<and> k \<noteq> ''createdAt'' \<and> k \<noteq> ''updatedAt'' \<longrightarrow>
                       get_prop (result ! i) k = get_prop (?items ! i) k
                     \<and> (has_prop k (result ! i) \<longleftrightarrow> has_prop k (?items ! i)))))"
    by (elim exE conjE)
  from a [THEN mp, OF acc] obtain result where r: "r = Inr result" ..
  note h = h0 [unfolded r]
  from f [rule_format, OF r] obtain cmds where
    s: "sent w' = sent initial @ cmds" and
    k: "length cmds = (length ?items + 24) div 25" and
    each: "\<forall>j < length cmds. bulk_write_to ''users'' (cmds ! j)
          \<and> carried (cmds ! j) = take 25 (drop (25 * j) result)
          \<and> length (carried (cmds ! j)) \<le> 25" and
    len: "length result = length ?items" and
    frame: "(\<forall>d \<in> set ?items. is_object d) \<longrightarrow>
          (\<forall>i < length ?items. \<forall>k. k \<noteq> ''id'' \<and> k \<noteq> ''createdAt'' \<and> k \<noteq> ''updatedAt'' \<longrightarrow>
             get_prop (result ! i) k = get_prop (?items ! i) k
           \<and> (has_prop k (result ! i) \<longleftrightarrow> has_prop k (?items ! i)))"
    by (elim exE conjE)
  from k have k2: "length cmds = 2" by simp
  then obtain c0 c1 where cmds: "cmds = [c0, c1]"
    by (cases cmds; cases "tl cmds") auto
  from len have len30: "length result = 30" by simp
  from each cmds have "bulk_write_to ''users'' c0" "carried c0 = take 25 (drop 0 result)"
    "bulk_write_to ''users'' c1" "carried c1 = take 25 (drop 25 result)"
    by (auto dest: spec [of _ 0])
  with len30 s cmds have tr: "map (\<lambda>c. length (carried c)) (sent w') = [25, 5]"
    "bulk_write_to ''users'' (sent w' ! 0)" "bulk_write_to ''users'' (sent w' ! 1)"
    by (simp_all add: initial_def)
  from frame o have f: "\<forall>i < 30. get_prop (result ! i) ''n'' = get_prop (?items ! i) ''n''"
    by simp
  have g: "get_prop (result ! 0) ''n'' = Num 0" "get_prop (result ! 29) ''n'' = Num 29"
    using f [rule_format, of 0] f [rule_format, of 29] by (simp_all add: get_prop_def del: upt_Suc)
  show ?thesis
    by (rule exI [of _ result], rule exI [of _ w']) (intro conjI h tr len30 g)
qed

subsection \<open>A rejected chunk\<close>

text \<open>
  Claim C7. Whatever the outcome of \<^verbatim>\<open>batchCreateItems\<close>, the commands it has sent are
  bulk writes of the first chunks, in order, each sent once. When the operation is
  rejected, the client fulfilled every command but the last one sent, rejected that one,
  and the operation throws the client's own error object; nothing is sent after the
  rejected command: no second attempt, no later chunk and no command that undoes an
  earlier write. When a command is rejected the operation is not fulfilled.
\<close>

theorem batchCreateItems_failure:
  "\<exists>r w' cmds. batchCreateItems env items table w = Some (r, w')
     \<and> sent w' = sent w @ cmds
     \<and> length cmds \<le> (length items + 24) div 25
     \<and> (\<forall>j < length cmds. bulk_write_to table (cmds ! j)
          \<and> carried (cmds ! j)
              = take 25 (drop (25 * j) (fst (map_effect (enrich env) items w))))
     \<and> (\<forall>res. r = Inr res \<longrightarrow> length cmds = (length items + 24) div 25
          \<and> (\<exists>outs. replies env (sent w) cmds = map Inr outs))
     \<and> (\<forall>e. r = Inl e \<longrightarrow>
          (\<exists>outs err. replies env (sent w) cmds = map Inr outs @ [Inl err] \<and> e = Provider err))"
proof -
  let ?E = "fst (map_effect (enrich env) items w)"
  obtain r w' where h: "batchCreateItems env items table w = Some (r, w')"
    using batchCreateItems_settles by blast
  from batchCreateItems_trace [OF h] obtain cmds where
    s: "sent w' = sent w @ cmds" and
    l: "length cmds \<le> (length items + 24) div 25" and
    b: "list_all (bulk_write_to table) cmds" and
    m: "map carried cmds = map (\<lambda>j. slice_from ?E (j * 25) (j * 25 + 25)) [0 ..< length cmds]" and
    o: "(case r of
            Inr res \<Rightarrow> length cmds = (length items + 24) div 25
              \<and> res = fst (map_effect (enrich env) items w)
              \<and> (\<exists>outs. replies env (sent w) cmds = map Inr outs)
          | Inl e \<Rightarrow> \<exists>outs err. replies env (sent w) cmds = map Inr outs @ [Inl err]
              \<and> e = Provider err)"
    by blast
  have each: "\<forall>j < length cmds. bulk_write_to table (cmds ! j)
          \<and> carried (cmds ! j) = take 25 (drop (25 * j) ?E)"
  proof (intro allI impI)
    fix j assume j: "j < length cmds"
    then have "carried (cmds ! j) = map carried cmds ! j" by simp
    also have "\<dots> = take 25 (drop (25 * j) ?E)"
      unfolding m using j by (rule nth_chunk)
    finally have "carried (cmds ! j) = take 25 (drop (25 * j) ?E)" .
    moreover from b j have "bulk_write_to table (cmds ! j)" by (simp add: list_all_length)
    ultimately show "bulk_write_to table (cmds ! j)
          \<and> carried (cmds ! j) = take 25 (drop (25 * j) ?E)" by simp
  qed
  from o have "\<forall>res. r = Inr res \<longrightarrow> length cmds = (length items + 24) div 25
          \<and> (\<exists>outs. replies env (sent w) cmds = map Inr outs)"
    by auto
  moreover from o have "\<forall>e. r = Inl e \<longrightarrow>
          (\<exists>outs err. replies env (sent w) cmds = map Inr outs @ [Inl err] \<and> e = Provider err)"
    by auto
  ultimately show ?thesis using h s l each
    by (intro exI [of _ r] exI [of _ w'] exI [of _ cmds] conjI)
qed

theorem batchCreateItems_failure_witness:
  "\<exists>w'. batchCreateItems (sample_env (failing_from 1)) (map (\<lambda>n. [(''n'', Num (int n))]) [0 ..< 30])
        ''users'' initial
      = Some (Inl (Provider (SdkError ''InternalServerError'' ''Internal server error'')), w')
    \<and> map (\<lambda>c. length (carried c)) (sent w') = [25, 5]"
proof -
  let ?env = "sample_env (failing_from 1)"
  let ?items = "map (\<lambda>n. [(''n'', Num (int n))]) [0 ..< 30]"
  let ?err = "SdkError ''InternalServerError'' ''Internal server error''"
  let ?E = "fst (map_effect (enrich ?env) ?items initial)"
  from batchCreateItems_failure [of ?env ?items "''users''" initial] obtain r w' cmds where
    h: "batchCreateItems ?env ?items ''users'' initial = Some (r, w')" and
    s: "sent w' = sent initial @ cmds" and
    l: "length cmds \<le> (length ?items + 24) div 25" and
    each: "\<forall>j < length cmds. bulk_write_to ''users'' (cmds ! j)
          \<and> carried (cmds ! j) = take 25 (drop (25 * j) ?E)" and
    ok: "\<forall>res. r = Inr res \<longrightarrow> length cmds = (length ?items + 24) div 25
          \<and> (\<exists>outs. replies ?env (sent initial) cmds = map Inr outs)" and
    ko: "\<forall>e. r = Inl e \<longrightarrow>
          (\<exists>outs err. replies ?env (sent initial) cmds = map Inr outs @ [Inl err] \<and> e = Provider err)"
    by (elim exE conjE)
  have lenE: "length ?E = 30" by (simp add: length_map_effect)
  have two: "replies ?env [] [c0, c1] = [Inr empty_response, Inl ?err]" for c0 c1
    by (simp add: sample_env_def failing_from_def)
  have one: "replies ?env [] [c0] = [Inr empty_response]" for c0
    by (simp add: sample_env_def failing_from_def)
  from l have l2: "length cmds \<le> 2" by simp
  have "r = Inl (Provider ?err) \<and> length cmds = 2"
  proof (cases r)
    case (Inr res)
    with ok obtain outs where "length cmds = 2" "replies ?env [] cmds = map Inr outs"
      by (auto simp: initial_def)
    moreover from this obtain c0 c1 where "cmds = [c0, c1]"
      by (cases cmds; cases "tl cmds") auto
    ultimately have "[Inr empty_response, Inl ?err] = map Inr outs" using two by simp
    then have False by (cases outs; cases "tl outs") auto
    then show ?thesis ..
  next
    case (Inl e)
    with ko obtain outs err where
      rep: "replies ?env [] cmds = map Inr outs @ [Inl err]" and e: "e = Provider err"
      by (auto simp: initial_def)
    from rep have "length cmds = Suc (length outs)"
      using length_replies [of ?env "[]" cmds] by simp
    with l2 consider c0 where "cmds = [c0]" "outs = []"
      | c0 c1 out where "cmds = [c0, c1]" "outs = [out]"
      by (cases cmds; cases "tl cmds"; cases outs; cases "tl outs") auto
    then show ?thesis
    proof cases
      case 1
      with rep one show ?thesis by simp
    next
      case 2
      with rep two have "err = ?err" by simp
      with 2 e Inl show ?thesis by simp
    qed
  qed
  then have r: "r = Inl (Provider ?err)" and k: "length cmds = 2" by simp_all
  from k obtain c0 c1 where cmds: "cmds = [c0, c1]"
    by (cases cmds; cases "tl cmds") auto
  from each cmds have "carried c0 = take 25 (drop 0 ?E)" "carried c1 = take 25 (drop 25 ?E)"
    by (auto dest: spec [of _ 0])
  with lenE s cmds have tr: "map (\<lambda>c. length (carried c)) (sent w') = [25, 5]"
    by (simp add: initial_def)
  show ?thesis
    by (rule exI [of _ w']) (intro conjI h [unfolded r] tr)
qed

section \<open>The update operation\<close>

lemma modifyUpdatedAtTimestamp_result:
  "modifyUpdatedAtTimestamp env data w =
     (set_prop ''updatedAt'' (Num (Date_now env (clock_reads w))) (spread [] data),
      w\<lparr>clock_reads := clock_reads w + 1\<rparr>)"
  by (simp add: modifyUpdatedAtTimestamp_def now_def Let_def)

text \<open>
  Claim C6. \<^verbatim>\<open>updateItem\<close> sends one update command for the key. Its directive names
  each attribute of the caller's mapping together with \<^verbatim>\<open>updatedAt\<close>, each once and no
  other: the expression is \<^verbatim>\<open>set\<close> followed by one clause \<^verbatim>\<open>#a = :a\<close> per attribute
  \<^verbatim>\<open>a\<close>, the alias \<^verbatim>\<open>#a\<close> stands for the attribute name \<^verbatim>\<open>a\<close>, and the alias \<^verbatim>\<open>:a\<close> for
  the caller's value of \<^verbatim>\<open>a\<close>, except that \<^verbatim>\<open>:updatedAt\<close> stands for the current time
  whether or not the caller supplied a value for it.
\<close>

theorem updateItem_directive:
  assumes "updateItem env key table data w = (r, w')" and "is_object data"
  shows "\<exists>attrs. distinct attrs
     \<and> set attrs = insert ''updatedAt'' (set (Object_keys data))
     \<and> sent w' = sent w @
         [UpdateCommand table key
            (''set '' @ join '', '' (map (\<lambda>a. ''#'' @ a @ '' = :'' @ a) attrs))
            (map (\<lambda>a. (''#'' @ a, a)) attrs)
            (map (\<lambda>a. ('':'' @ a,
                       if a = ''updatedAt'' then Num (Date_now env (clock_reads w))
                       else get_prop data a)) attrs)
            ALL_NEW]"
proof -
  let ?data = "set_prop ''updatedAt'' (Num (Date_now env (clock_reads w))) (spread [] data)"
  let ?attrs = "Object_keys ?data"
  have d: "distinct ?attrs"
    using is_object_set_prop [OF is_object_spread] by (simp add: is_object_def)
  have k: "set ?attrs = insert ''updatedAt'' (set (Object_keys data))"
    by (simp add: set_keys_set_prop set_keys_spread Object_keys_simps)
  have names: "fold (\<lambda>key acc. set_prop (''#'' @ key) key acc) ?attrs []
      = map (\<lambda>a. (''#'' @ a, a)) ?attrs"
    using fold_prefixed [OF d, of "CHR ''#''" "\<lambda>k. k"] by simp
  have "fold (\<lambda>key acc. set_prop ('':'' @ key) (get_prop ?data key) acc) ?attrs []
      = map (\<lambda>a. ('':'' @ a, get_prop ?data a)) ?attrs"
    using fold_prefixed [OF d, of "CHR '':''" "get_prop ?data"] by simp
  also have "\<dots> = map (\<lambda>a. ('':'' @ a,
                       if a = ''updatedAt'' then Num (Date_now env (clock_reads w))
                       else get_prop data a)) ?attrs"
    using assms(2) by (simp add: get_prop_set_prop get_prop_spread_empty)
  finally have vals: "fold (\<lambda>key acc. set_prop ('':'' @ key) (get_prop ?data key) acc) ?attrs []
      = map (\<lambda>a. ('':'' @ a,
                       if a = ''updatedAt'' then Num (Date_now env (clock_reads w))
                       else get_prop data a)) ?attrs" .
  have "sent w' = sent w @
         [UpdateCommand table key
            (''set '' @ join '', '' (map (\<lambda>a. ''#'' @ a @ '' = :'' @ a) ?attrs))
            (fold (\<lambda>key acc. set_prop (''#'' @ key) key acc) ?attrs [])
            (fold (\<lambda>key acc. set_prop ('':'' @ key) (get_prop ?data key) acc) ?attrs [])
            ALL_NEW]"
    using assms(1)
    by (auto simp: updateItem_def modifyUpdatedAtTimestamp_result send_def Let_def
        split: sum.splits)
  with d k show ?thesis unfolding names vals by blast
qed

theorem updateItem_directive_witness:
  "updateItem (sample_env accepting) [(''id'', ''u1'')] ''users''
      [(''name'', Str ''Bob''), (''updatedAt'', Num 5)] initial
    = (Inr None,
       \<lparr>clock_reads = 1, uuid_calls = 0,
        sent = [UpdateCommand ''users'' [(''id'', ''u1'')]
          ''set #name = :name, #updatedAt = :updatedAt''
          [(''#name'', ''name''), (''#updatedAt'', ''updatedAt'')]
          [('':name'', Str ''Bob''), ('':updatedAt'', Num 1700000000000)]
          ALL_NEW]\<rparr>)
   \<and> is_object [(''name'', Str ''Bob''), (''updatedAt'', Num 5)]"
proof -
  have i: "array_index ''#name'' = None" "array_index ''#updatedAt'' = None"
    "array_index '':name'' = None" "array_index '':updatedAt'' = None"
    by (simp_all add: array_index_prefixed)
  have a: "updateItem (sample_env accepting) [(''id'', ''u1'')] ''users''
      [(''name'', Str ''Bob''), (''updatedAt'', Num 5)] initial
    = (Inr None,
       \<lparr>clock_reads = 1, uuid_calls = 0,
        sent = [UpdateCommand ''users'' [(''id'', ''u1'')]
          ''set #name = :name, #updatedAt = :updatedAt''
          [(''#name'', ''name''), (''#updatedAt'', ''updatedAt'')]
          [('':name'', Str ''Bob''), ('':updatedAt'', Num 1700000000000)]
          ALL_NEW]\<rparr>)"
    by (simp add: updateItem_def modifyUpdatedAtTimestamp_def now_def send_def Let_def
        Object_keys_def sample_eval object_eval i)
  have o: "is_object [(''name'', Str ''Bob''), (''updatedAt'', Num 5)]"
    by (simp add: is_object_def Object_keys_def)
  note updateItem_directive [OF a o]
  with a o show ?thesis by simp
qed

section \<open>The append path\<close>

subsection \<open>The form of the time stamps\<close>

lemma is_digit_nth: "m < 10 \<Longrightarrow> is_digit (''0123456789'' ! m)"
  unfolding is_digit_def by (rule nth_mem) simp

lemma pad_unfold:
  "0 < k \<Longrightarrow> pad k n = pad (k - 1) (n div 10) @ [''0123456789'' ! (n mod 10)]"
  by (cases k) simp_all

lemma matches_digit:
  "matches (CHR ''d'' # ps) ((''0123456789'' ! (n mod 10)) # cs) = matches ps cs"
  by (simp add: is_digit_nth)

lemma matches_pad_2:
  "matches (CHR ''d'' # CHR ''d'' # ps) (pad 2 n @ cs) = matches ps cs"
  by (simp add: pad_unfold matches_digit del: matches.simps)

lemma matches_pad_3:
  "matches (CHR ''d'' # CHR ''d'' # CHR ''d'' # ps) (pad 3 n @ cs) = matches ps cs"
  by (simp add: pad_unfold matches_digit del: matches.simps)

lemma matches_pad_4:
  "matches (CHR ''d'' # CHR ''d'' # CHR ''d'' # CHR ''d'' # ps) (pad 4 n @ cs) = matches ps cs"
  by (simp add: pad_unfold matches_digit del: matches.simps)

lemma matches_pad_6:
  "matches (CHR ''d'' # CHR ''d'' # CHR ''d'' # CHR ''d'' # CHR ''d'' # CHR ''d'' # ps)
     (pad 6 n @ cs) = matches ps cs"
  by (simp add: pad_unfold matches_digit del: matches.simps)

lemmas civil_eval =
  civil_from_days_def civil_of_era_def civil_of_year_def civil_of_day_def civil_of_month_def

lemma toISOString_examples:
  "toISOString 0 = ''1970-01-01T00:00:00.000Z''"
  "toISOString 1700000000000 = ''2023-11-14T22:13:20.000Z''"
  "toISOString 1700000000001 = ''2023-11-14T22:13:20.001Z''"
  "toISOString 1700000000002 = ''2023-11-14T22:13:20.002Z''"
  "toISOString 1700000000003 = ''2023-11-14T22:13:20.003Z''"
  "toISOString 1709251199999 = ''2024-02-29T23:59:59.999Z''"
  "toISOString (- 1) = ''1969-12-31T23:59:59.999Z''"
  "toISOString 253402300800000 = ''+010000-01-01T00:00:00.000Z''"
  "toISOString (- 62198755200000) = ''-000001-01-01T00:00:00.000Z''"
  by (simp_all add: toISOString_def civil_eval pad_unfold)

lemma toISOString_form:
  obtains year a b h mi s f where
    "toISOString t = year @ ''-'' @ pad 2 a @ ''-'' @ pad 2 b @ ''T'' @ pad 2 h @ '':'' @
       pad 2 mi @ '':'' @ pad 2 s @ ''.'' @ pad 3 f @ ''Z''"
    and "(\<exists>y. year = pad 4 y) \<or> (\<exists>y. year = ''-'' @ pad 6 y) \<or> (\<exists>y. year = ''+'' @ pad 6 y)"
proof -
  obtain y m d where c: "civil_from_days (t div 86400000) = (y, m, d)"
    by (cases "civil_from_days (t div 86400000)")
  let ?year = "if 0 \<le> y \<and> y \<le> 9999 then pad 4 (nat y)
               else (if y < 0 then ''-'' else ''+'') @ pad 6 (nat \<bar>y\<bar>)"
  have "toISOString t = ?year @ ''-'' @ pad 2 (nat m) @ ''-'' @ pad 2 (nat d) @ ''T'' @
         pad 2 (nat (t mod 86400000 div 3600000)) @ '':'' @
         pad 2 (nat (t mod 86400000 div 60000 mod 60)) @ '':'' @
         pad 2 (nat (t mod 86400000 div 1000 mod 60)) @ ''.'' @
         pad 3 (nat (t mod 86400000 mod 1000)) @ ''Z''"
    by (simp only: toISOString_def c format_utc.simps)
  moreover have "(\<exists>n. ?year = pad 4 n) \<or> (\<exists>n. ?year = ''-'' @ pad 6 n)
      \<or> (\<exists>n. ?year = ''+'' @ pad 6 n)"
    by (cases "0 \<le> y \<and> y \<le> 9999"; cases "y < 0") auto
  ultimately show thesis by (rule that)
qed

lemma iso_8601_toISOString: "iso_8601 (toISOString t)"
proof -
  obtain year a b h mi s f where
    form: "toISOString t = year @ ''-'' @ pad 2 a @ ''-'' @ pad 2 b @ ''T'' @ pad 2 h @ '':'' @
       pad 2 mi @ '':'' @ pad 2 s @ ''.'' @ pad 3 f @ ''Z''"
    and year: "(\<exists>y. year = pad 4 y) \<or> (\<exists>y. year = ''-'' @ pad 6 y) \<or> (\<exists>y. year = ''+'' @ pad 6 y)"
    by (rule toISOString_form)
  have tail: "matches ''-dd-ddTdd:dd:dd.dddZ''
      (''-'' @ pad 2 a @ ''-'' @ pad 2 b @ ''T'' @ pad 2 h @ '':'' @ pad 2 mi @ '':'' @
       pad 2 s @ ''.'' @ pad 3 f @ ''Z'')"
    by (simp add: matches_pad_2 matches_pad_3)
  from year consider y where "year = pad 4 y" | y where "year = ''-'' @ pad 6 y"
    | y where "year = ''+'' @ pad 6 y" by blast
  then show ?thesis
  proof cases
    case 1
    have "matches ''dddd-dd-ddTdd:dd:dd.dddZ'' (toISOString t)"
      unfolding form 1 using tail by (simp only: matches_pad_4)
    then show ?thesis by (simp only: iso_8601_def simp_thms)
  next
    case 2
    have "matches ''-dddddd-dd-ddTdd:dd:dd.dddZ'' (toISOString t)"
      unfolding form 2 using tail by (simp add: matches_pad_6)
    then show ?thesis by (simp only: iso_8601_def simp_thms)
  next
    case 3
    have "matches ''+dddddd-dd-ddTdd:dd:dd.dddZ'' (toISOString t)"
      unfolding form 3 using tail by (simp add: matches_pad_6)
    then show ?thesis by (simp only: iso_8601_def simp_thms)
  qed
qed

subsection \<open>Stamping a record\<close>

lemma addCreatedAt_result:
  "addCreatedAt env d w =
     (spread [(''createdAt'', Str (toISOString (Date_now env (clock_reads w)))),
              (''updatedAt'', Str (toISOString (Date_now env (clock_reads w + 1))))] d,
      w\<lparr>clock_reads := clock_reads w + 2\<rparr>)"
  by (simp add: addCreatedAt_def now_def Let_def)

lemma addCreatedAt_sent:
  "addCreatedAt env d (w\<lparr>sent := h\<rparr>)
     = (fst (addCreatedAt env d w), (snd (addCreatedAt env d w))\<lparr>sent := h\<rparr>)"
  by (simp add: addCreatedAt_result)

lemma get_prop_addCreatedAt:
  assumes "is_object d"
  shows "get_prop (fst (addCreatedAt env d w)) k =
     (if has_prop k d then get_prop d k
      else if k = ''createdAt'' then Str (toISOString (Date_now env (clock_reads w)))
      else if k = ''updatedAt'' then Str (toISOString (Date_now env (clock_reads w + 1)))
      else Undefined)"
proof -
  have "map_of (fst (addCreatedAt env d w)) =
      map_of [(''createdAt'', Str (toISOString (Date_now env (clock_reads w)))),
              (''updatedAt'', Str (toISOString (Date_now env (clock_reads w + 1))))] ++ map_of d"
    using assms by (simp add: addCreatedAt_result map_of_spread_distinct is_object_def)
  then show ?thesis
    by (auto simp: get_prop_def has_prop_def map_add_def split: option.splits)
qed

lemma has_prop_addCreatedAt:
  "has_prop k (fst (addCreatedAt env d w)) \<longleftrightarrow>
     k = ''createdAt'' \<or> k = ''updatedAt'' \<or> has_prop k d"
  by (auto simp: addCreatedAt_result has_prop_iff set_keys_spread Object_keys_simps)

lemma map_addCreatedAt_world:
  "snd (map_effect (addCreatedAt env) xs w) = w\<lparr>clock_reads := clock_reads w + 2 * length xs\<rparr>"
  by (induction xs arbitrary: w) (simp_all add: split_beta Let_def addCreatedAt_result)

lemma map_addCreatedAt_sent:
  "fst (map_effect (addCreatedAt env) xs (w\<lparr>sent := h\<rparr>)) = fst (map_effect (addCreatedAt env) xs w)"
  using map_effect_commute [of "addCreatedAt env" "\<lambda>w. w\<lparr>sent := h\<rparr>" xs w]
  by (simp add: addCreatedAt_sent)

lemma nth_addCreatedAt:
  "i < length items \<Longrightarrow>
   fst (map_effect (addCreatedAt env) items w) ! i
     = fst (addCreatedAt env (items ! i) (w\<lparr>clock_reads := clock_reads w + 2 * i\<rparr>))"
  by (simp add: map_effect_nth map_addCreatedAt_world)

lemma map_addItems_request:
  "map_effect (addItems_request env) chunk w =
     (map (\<lambda>it. PutRequest it None) (fst (map_effect (addCreatedAt env) chunk w)),
      snd (map_effect (addCreatedAt env) chunk w))"
  by (induction chunk arbitrary: w) (auto simp: split_beta Let_def addItems_request_def)

subsection \<open>The commands of a bulk append\<close>

lemma addItems_loop_trace:
  assumes "addItems_loop env table chunks w = (r, w')"
  shows "\<exists>cmds. sent w' = sent w @ cmds
      \<and> length cmds \<le> length chunks
      \<and> list_all (bulk_write_to table) cmds
      \<and> map (\<lambda>c. length (carried c)) cmds = map length (take (length cmds) chunks)
      \<and> concat (map carried cmds)
          = fst (map_effect (addCreatedAt env) (concat (take (length cmds) chunks)) w)
      \<and> uuid_calls w' = uuid_calls w
      \<and> (case r of
            Inr u \<Rightarrow> length cmds = length chunks
              \<and> (\<exists>outs. replies env (sent w) cmds = map Inr outs)
          | Inl e \<Rightarrow> \<exists>outs err. replies env (sent w) cmds = map Inr outs @ [Inl err]
              \<and> e = Provider err)"
  using assms
proof (induction chunks arbitrary: w r w')
  case Nil
  then show ?case by auto
next
  case (Cons chunk chunks)
  define E where "E = fst (map_effect (addCreatedAt env) chunk w)"
  define w1 where "w1 = snd (map_effect (addCreatedAt env) chunk w)"
  define cmd where "cmd = BatchWriteCommand [(table, map (\<lambda>it. PutRequest it None) E)]"
  define w2 where "w2 = w1\<lparr>sent := sent w1 @ [cmd]\<rparr>"
  have w1: "w1 = w\<lparr>clock_reads := clock_reads w + 2 * length chunk\<rparr>"
    unfolding w1_def by (rule map_addCreatedAt_world)
  have sent1: "sent w1 = sent w" and uuid1: "uuid_calls w1 = uuid_calls w" by (simp_all add: w1)
  have lenE: "length E = length chunk" unfolding E_def by (rule length_map_effect)
  have car: "carried cmd = E" unfolding cmd_def by (rule carried_bulk)
  have bw: "bulk_write_to table cmd" unfolding cmd_def by simp
  have unfold: "addItems_loop env table (chunk # chunks) w =
      (case docClient env (sent w) cmd of
         Inl error \<Rightarrow> (Inl (Provider error), w2)
       | Inr res \<Rightarrow> addItems_loop env table chunks w2)"
    unfolding w2_def cmd_def
    by (simp add: map_addItems_request send_def Let_def E_def [symmetric] w1_def [symmetric] sent1)
  show ?case
  proof (cases "docClient env (sent w) cmd")
    case (Inl err)
    with Cons.prems unfold have r: "r = Inl (Provider err)" and w': "w' = w2" by simp_all
    have "sent w' = sent w @ [cmd]" by (simp add: w' w2_def sent1)
    moreover have "replies env (sent w) [cmd] = map Inr [] @ [Inl err]" using Inl by simp
    moreover have "uuid_calls w' = uuid_calls w" by (simp add: w' w2_def uuid1)
    ultimately show ?thesis
      apply (intro exI [of _ "[cmd]"])
      apply (simp add: bw car lenE r E_def [symmetric])
      done
  next
    case (Inr out)
    with Cons.prems unfold
    have rest: "addItems_loop env table chunks w2 = (r, w')" by simp
    from Cons.IH [OF rest] obtain cmds where
      s: "sent w' = sent w2 @ cmds" and
      l: "length cmds \<le> length chunks" and
      b: "list_all (bulk_write_to table) cmds" and
      m: "map (\<lambda>c. length (carried c)) cmds = map length (take (length cmds) chunks)" and
      c: "concat (map carried cmds)
          = fst (map_effect (addCreatedAt env) (concat (take (length cmds) chunks)) w2)" and
      u: "uuid_calls w' = uuid_calls w2" and
      o: "(case r of
            Inr u \<Rightarrow> length cmds = length chunks
              \<and> (\<exists>outs. replies env (sent w2) cmds = map Inr outs)
          | Inl e \<Rightarrow> \<exists>outs err. replies env (sent w2) cmds = map Inr outs @ [Inl err]
              \<and> e = Provider err)"
      by blast
    have sent2: "sent w2 = sent w @ [cmd]" by (simp add: w2_def sent1)
    have c': "concat (map carried cmds)
          = fst (map_effect (addCreatedAt env) (concat (take (length cmds) chunks)) w1)"
      using c by (simp add: w2_def map_addCreatedAt_sent)
    have conc: "concat (map carried (cmd # cmds))
          = fst (map_effect (addCreatedAt env)
                  (concat (take (length (cmd # cmds)) (chunk # chunks))) w)"
      by (simp add: car c' map_effect_append E_def w1_def)
    have outcome: "(case r of
            Inr u \<Rightarrow> length (cmd # cmds) = length (chunk # chunks)
              \<and> (\<exists>outs. replies env (sent w) (cmd # cmds) = map Inr outs)
          | Inl e \<Rightarrow> \<exists>outs err. replies env (sent w) (cmd # cmds) = map Inr outs @ [Inl err]
              \<and> e = Provider err)"
    proof (cases r)
      case (Inl e)
      with o obtain outs err where
        "replies env (sent w2) cmds = map Inr outs @ [Inl err]" "e = Provider err" by auto
      then have "replies env (sent w) (cmd # cmds) = map Inr (out # outs) @ [Inl err]
          \<and> e = Provider err"
        using Inr by (simp add: sent2)
      then have "\<exists>outs err. replies env (sent w) (cmd # cmds) = map Inr outs @ [Inl err]
          \<and> e = Provider err"
        by (intro exI)
      with Inl show ?thesis by (simp del: replies.simps)
    next
      case (Inr res)
      with o obtain outs where
        "length cmds = length chunks" "replies env (sent w2) cmds = map Inr outs" by auto
      moreover from this have "replies env (sent w) (cmd # cmds) = map Inr (out # outs)"
        using \<open>docClient env (sent w) cmd = Inr out\<close> by (simp add: sent2)
      then have "\<exists>outs. replies env (sent w) (cmd # cmds) = map Inr outs"
        by (intro exI)
      ultimately show ?thesis using Inr by (simp del: replies.simps)
    qed
    show ?thesis
      apply (intro exI [of _ "cmd # cmds"] conjI)
      subgoal by (simp add: s sent2)
      subgoal using l by simp
      subgoal using b bw by simp
      subgoal using m by (simp add: car lenE)
      subgoal by (rule conc)
      subgoal by (simp add: u w2_def uuid1)
      subgoal by (rule outcome)
      done
  qed
qed

lemma addItems_trace:
  assumes "addItems env table items w = Some (r, w')"
  shows "\<exists>cmds. sent w' = sent w @ cmds
      \<and> length cmds \<le> (length items + 24) div 25
      \<and> list_all (bulk_write_to table) cmds
      \<and> concat (map carried cmds)
          = take (25 * length cmds) (fst (map_effect (addCreatedAt env) items w))
      \<and> uuid_calls w' = uuid_calls w
      \<and> (case r of
            Inr u \<Rightarrow> length cmds = (length items + 24) div 25
          | Inl e \<Rightarrow> \<exists>err. e = Provider err)"
proof -
  let ?K = "(length items + 24) div 25"
  let ?chunks = "map (\<lambda>j. slice_from items (j * 25) (j * 25 + 25)) [0 ..< ?K]"
  have cb: "createBatch items 25 = Some ?chunks"
    using createBatch_closed [of 25 items] by (simp add: add.commute)
  with assms have "addItems_loop env table ?chunks w = (r, w')"
    by (simp add: addItems_def)
  from addItems_loop_trace [OF this] obtain cmds where
    s: "sent w' = sent w @ cmds" and
    l: "length cmds \<le> ?K" and
    b: "list_all (bulk_write_to table) cmds" and
    c: "concat (map carried cmds)
          = fst (map_effect (addCreatedAt env) (concat (take (length cmds) ?chunks)) w)" and
    u: "uuid_calls w' = uuid_calls w" and
    o: "(case r of
            Inr u \<Rightarrow> length cmds = length ?chunks
              \<and> (\<exists>outs. replies env (sent w) cmds = map Inr outs)
          | Inl e \<Rightarrow> \<exists>outs err. replies env (sent w) cmds = map Inr outs @ [Inl err]
              \<and> e = Provider err)"
    by auto
  have "concat (take (length cmds) ?chunks) = take (length cmds * 25) items"
    using concat_take_chunks [of "length cmds" items 25 ?K] l by (simp add: min_def)
  with c have c': "concat (map carried cmds)
          = take (25 * length cmds) (fst (map_effect (addCreatedAt env) items w))"
    by (simp add: map_effect_take mult.commute)
  from o have "(case r of
            Inr u \<Rightarrow> length cmds = ?K
          | Inl e \<Rightarrow> \<exists>err. e = Provider err)"
    by (cases r) auto
  with s l b c' u show ?thesis by blast
qed

lemma addItems_settles: "\<exists>r w'. addItems env table items w = Some (r, w')"
  by (cases "addItems_loop env table
        (map (\<lambda>j. slice_from items (j * 25) (j * 25 + 25)) [0 ..< (length items + 25 - 1) div 25])
        w")
    (simp add: addItems_def createBatch_closed)

lemma addItem_result:
  "addItem env table data flag w =
     (case docClient env (sent w)
         (PutCommand table (if flag = Some True then data else fst (addCreatedAt env data w)) None) of
        Inl error \<Rightarrow> Inl (Provider error)
      | Inr response \<Rightarrow> Inr (),
      (if flag = Some True then w else w\<lparr>clock_reads := clock_reads w + 2\<rparr>)
        \<lparr>sent := sent w @
           [PutCommand table (if flag = Some True then data else fst (addCreatedAt env data w))
              None]\<rparr>)"
  by (cases flag) (auto simp: addItem_def send_def Let_def addCreatedAt_result split: sum.splits)

text \<open>The records that a bulk append has written so far, and the outcome.\<close>

lemma addItems_written:
  assumes "addItems env table items w = Some (r, w')"
  shows "\<exists>cmds. sent w' = sent w @ cmds
    \<and> length (concat (map carried cmds)) \<le> length items
    \<and> (r = Inr () \<longrightarrow> length (concat (map carried cmds)) = length items)
    \<and> (\<forall>i < length (concat (map carried cmds)).
          concat (map carried cmds) ! i
            = fst (addCreatedAt env (items ! i) (w\<lparr>clock_reads := clock_reads w + 2 * i\<rparr>)))
    \<and> uuid_calls w' = uuid_calls w
    \<and> (r = Inr () \<or> (\<exists>error. r = Inl (Provider error)))"
proof -
  let ?A = "fst (map_effect (addCreatedAt env) items w)"
  from addItems_trace [OF assms] obtain cmds where
    s: "sent w' = sent w @ cmds" and
    c: "concat (map carried cmds) = take (25 * length cmds) ?A" and
    u: "uuid_calls w' = uuid_calls w" and
    o: "(case r of
            Inr u \<Rightarrow> length cmds = (length items + 24) div 25
          | Inl e \<Rightarrow> \<exists>err. e = Provider err)"
    by blast
  have lenA: "length ?A = length items" by (rule length_map_effect)
  have 1: "length (concat (map carried cmds)) \<le> length items" by (simp add: c lenA)
  have 2: "length (concat (map carried cmds)) = length items" if "r = Inr ()"
  proof -
    from o that have "length cmds = (length items + 24) div 25" by simp
    then have "length items \<le> 25 * length cmds" by arith
    then show ?thesis by (simp add: c lenA)
  qed
  have 3: "concat (map carried cmds) ! i
            = fst (addCreatedAt env (items ! i) (w\<lparr>clock_reads := clock_reads w + 2 * i\<rparr>))"
    if "i < length (concat (map carried cmds))" for i
  proof -
    from that have "i < 25 * length cmds" "i < length items" by (simp_all add: c lenA)
    then show ?thesis by (simp add: c nth_addCreatedAt)
  qed
  from o have 4: "r = Inr () \<or> (\<exists>error. r = Inl (Provider error))" by (cases r) auto
  from s 1 2 3 u 4 show ?thesis by blast
qed

lemmas append_eval =
  addItem_def addCreatedAt_def now_def send_def Let_def toISOString_examples

subsection \<open>What the append path writes\<close>

text \<open>
  Claim C9, as the code has it. On the append path (\<^verbatim>\<open>addItem\<close> without the skip flag, and
  every record that \<^verbatim>\<open>addItems\<close> writes) no identifier is generated: the generator is not
  called and \<^verbatim>\<open>id\<close> is written as the caller gave it, or not at all. A record that does
  not carry \<^verbatim>\<open>createdAt\<close> gets the ISO 8601 string of a reading of the clock for it, and
  likewise for \<^verbatim>\<open>updatedAt\<close>, from the reading after that one. A record that carries
  \<^verbatim>\<open>createdAt\<close> or \<^verbatim>\<open>updatedAt\<close> is written with the value it carries. The operations
  settle and return no value.
\<close>

theorem append_stamps:
  "(addItem env table data flag w = (r, w') \<and> flag \<noteq> Some True \<and> is_object data \<longrightarrow>
      (\<exists>item. sent w' = sent w @ [PutCommand table item None]
         \<and> (has_prop ''id'' item \<longleftrightarrow> has_prop ''id'' data)
         \<and> get_prop item ''id'' = get_prop data ''id''
         \<and> (\<not> has_prop ''createdAt'' data \<longrightarrow>
              get_prop item ''createdAt'' = Str (toISOString (Date_now env (clock_reads w))))
         \<and> (\<not> has_prop ''updatedAt'' data \<longrightarrow>
              get_prop item ''updatedAt'' = Str (toISOString (Date_now env (clock_reads w + 1))))
         \<and> (has_prop ''createdAt'' data \<longrightarrow>
              get_prop item ''createdAt'' = get_prop data ''createdAt'')
         \<and> (has_prop ''updatedAt'' data \<longrightarrow>
              get_prop item ''updatedAt'' = get_prop data ''updatedAt''))
    \<and> uuid_calls w' = uuid_calls w
    \<and> (r = Inr () \<or> (\<exists>error. r = Inl (Provider error))))
   \<and> (addItems env table items w = Some (r', w'') \<and> (\<forall>d \<in> set items. is_object d) \<longrightarrow>
      (\<exists>cmds written. sent w'' = sent w @ cmds \<and> written = concat (map carried cmds)
         \<and> length written \<le> length items
         \<and> (r' = Inr () \<longrightarrow> length written = length items)
         \<and> (\<forall>i < length written.
              (has_prop ''id'' (written ! i) \<longleftrightarrow> has_prop ''id'' (items ! i))
            \<and> get_prop (written ! i) ''id'' = get_prop (items ! i) ''id''
            \<and> (\<not> has_prop ''createdAt'' (items ! i) \<longrightarrow> get_prop (written ! i) ''createdAt''
                  = Str (toISOString (Date_now env (clock_reads w + 2 * i))))
            \<and> (\<not> has_prop ''updatedAt'' (items ! i) \<longrightarrow> get_prop (written ! i) ''updatedAt''
                  = Str (toISOString (Date_now env (clock_reads w + 2 * i + 1))))
            \<and> (has_prop ''createdAt'' (items ! i) \<longrightarrow>
                  get_prop (written ! i) ''createdAt'' = get_prop (items ! i) ''createdAt'')
            \<and> (has_prop ''updatedAt'' (items ! i) \<longrightarrow>
                  get_prop (written ! i) ''updatedAt'' = get_prop (items ! i) ''updatedAt'')))
    \<and> uuid_calls w'' = uuid_calls w
    \<and> (r' = Inr () \<or> (\<exists>error. r' = Inl (Provider error))))
   \<and> addItems env table items w \<noteq> None
   \<and> (\<forall>t. iso_8601 (toISOString t))"
proof (intro conjI impI allI; (elim conjE)?)
  assume a: "addItem env table data flag w = (r, w')" and f: "flag \<noteq> Some True"
    and o: "is_object data"
  let ?item = "fst (addCreatedAt env data w)"
  from a f have s: "sent w' = sent w @ [PutCommand table ?item None]"
    by (auto simp: addItem_result)
  have "(has_prop ''id'' ?item \<longleftrightarrow> has_prop ''id'' data)
         \<and> get_prop ?item ''id'' = get_prop data ''id''
         \<and> (\<not> has_prop ''createdAt'' data \<longrightarrow>
              get_prop ?item ''createdAt'' = Str (toISOString (Date_now env (clock_reads w))))
         \<and> (\<not> has_prop ''updatedAt'' data \<longrightarrow>
              get_prop ?item ''updatedAt'' = Str (toISOString (Date_now env (clock_reads w + 1))))
         \<and> (has_prop ''createdAt'' data \<longrightarrow>
              get_prop ?item ''createdAt'' = get_prop data ''createdAt'')
         \<and> (has_prop ''updatedAt'' data \<longrightarrow>
              get_prop ?item ''updatedAt'' = get_prop data ''updatedAt'')"
    using o by (auto simp: get_prop_addCreatedAt has_prop_addCreatedAt get_prop_absent)
  with s show "\<exists>item. sent w' = sent w @ [PutCommand table item None]
         \<and> (has_prop ''id'' item \<longleftrightarrow> has_prop ''id'' data)
         \<and> get_prop item ''id'' = get_prop data ''id''
         \<and> (\<not> has_prop ''createdAt'' data \<longrightarrow>
              get_prop item ''createdAt'' = Str (toISOString (Date_now env (clock_reads w))))
         \<and> (\<not> has_prop ''updatedAt'' data \<longrightarrow>
              get_prop item ''updatedAt'' = Str (toISOString (Date_now env (clock_reads w + 1))))
         \<and> (has_prop ''createdAt'' data \<longrightarrow>
              get_prop item ''createdAt'' = get_prop data ''createdAt'')
         \<and> (has_prop ''updatedAt'' data \<longrightarrow>
              get_prop item ''updatedAt'' = get_prop data ''updatedAt'')"
    by blast
  from a f show "uuid_calls w' = uuid_calls w" by (auto simp: addItem_result)
  from a show "r = Inr () \<or> (\<exists>error. r = Inl (Provider error))"
    by (auto simp: addItem_result split: sum.splits)
next
  assume a: "addItems env table items w = Some (r', w'')" and o: "\<forall>d \<in> set items. is_object d"
  obtain cmds where
    s: "sent w'' = sent w @ cmds" and
    l: "length (concat (map carried cmds)) \<le> length items" and
    f: "r' = Inr () \<longrightarrow> length (concat (map carried cmds)) = length items" and
    n: "\<forall>i < length (concat (map carried cmds)).
          concat (map carried cmds) ! i
            = fst (addCreatedAt env (items ! i) (w\<lparr>clock_reads := clock_reads w + 2 * i\<rparr>))" and
    u: "uuid_calls w'' = uuid_calls w" and
    e: "r' = Inr () \<or> (\<exists>error. r' = Inl (Provider error))"
    using addItems_written [OF a] by blast
  let ?written = "concat (map carried cmds)"
  have each: "\<forall>i < length ?written.
              (has_prop ''id'' (?written ! i) \<longleftrightarrow> has_prop ''id'' (items ! i))
            \<and> get_prop (?written ! i) ''id'' = get_prop (items ! i) ''id''
            \<and> (\<not> has_prop ''createdAt'' (items ! i) \<longrightarrow> get_prop (?written ! i) ''createdAt''
                  = Str (toISOString (Date_now env (clock_reads w + 2 * i))))
            \<and> (\<not> has_prop ''updatedAt'' (items ! i) \<longrightarrow> get_prop (?written ! i) ''updatedAt''
                  = Str (toISOString (Date_now env (clock_reads w + 2 * i + 1))))
            \<and> (has_prop ''createdAt'' (items ! i) \<longrightarrow>
                  get_prop (?written ! i) ''createdAt'' = get_prop (items ! i) ''createdAt'')
            \<and> (has_prop ''updatedAt'' (items ! i) \<longrightarrow>
                  get_prop (?written ! i) ''updatedAt'' = get_prop (items ! i) ''updatedAt'')"
  proof (intro allI impI)
    fix i assume i: "i < length ?written"
    with l o have oi: "is_object (items ! i)" by simp
    show "(has_prop ''id'' (?written ! i) \<longleftrightarrow> has_prop ''id'' (items ! i))
            \<and> get_prop (?written ! i) ''id'' = get_prop (items ! i) ''id''
            \<and> (\<not> has_prop ''createdAt'' (items ! i) \<longrightarrow> get_prop (?written ! i) ''createdAt''
                  = Str (toISOString (Date_now env (clock_reads w + 2 * i))))
            \<and> (\<not> has_prop ''updatedAt'' (items ! i) \<longrightarrow> get_prop (?written ! i) ''updatedAt''
                  = Str (toISOString (Date_now env (clock_reads w + 2 * i + 1))))
            \<and> (has_prop ''createdAt'' (items ! i) \<longrightarrow>
                  get_prop (?written ! i) ''createdAt'' = get_prop (items ! i) ''createdAt'')
            \<and> (has_prop ''updatedAt'' (items ! i) \<longrightarrow>
                  get_prop (?written ! i) ''updatedAt'' = get_prop (items ! i) ''updatedAt'')"
      unfolding n [rule_format, OF i] using oi
      by (auto simp: get_prop_addCreatedAt has_prop_addCreatedAt get_prop_absent)
  qed
  from s l f each show "\<exists>cmds written. sent w'' = sent w @ cmds \<and> written = concat (map carried cmds)
         \<and> length written \<le> length items
         \<and> (r' = Inr () \<longrightarrow> length written = length items)
         \<and> (\<forall>i < length written.
              (has_prop ''id'' (written ! i) \<longleftrightarrow> has_prop ''id'' (items ! i))
            \<and> get_prop (written ! i) ''id'' = get_prop (items ! i) ''id''
            \<and> (\<not> has_prop ''createdAt'' (items ! i) \<longrightarrow> get_prop (written ! i) ''createdAt''
                  = Str (toISOString (Date_now env (clock_reads w + 2 * i))))
            \<and> (\<not> has_prop ''updatedAt'' (items ! i) \<longrightarrow> get_prop (written ! i) ''updatedAt''
                  = Str (toISOString (Date_now env (clock_reads w + 2 * i + 1))))
            \<and> (has_prop ''createdAt'' (items ! i) \<longrightarrow>
                  get_prop (written ! i) ''createdAt'' = get_prop (items ! i) ''createdAt'')
            \<and> (has_prop ''updatedAt'' (items ! i) \<longrightarrow>
                  get_prop (written ! i) ''updatedAt'' = get_prop (items ! i) ''updatedAt''))"
    by blast
  from u show "uuid_calls w'' = uuid_calls w" .
  from e show "r' = Inr () \<or> (\<exists>error. r' = Inl (Provider error))" .
next
  show "addItems env table items w \<noteq> None"
    using addItems_settles [of env table items w] by auto
next
  fix t show "iso_8601 (toISOString t)" by (rule iso_8601_toISOString)
qed

theorem append_stamps_witness:
  "addItem (sample_env accepting) ''events'' [(''name'', Str ''login'')] None initial
     = (Inr (),
        \<lparr>clock_reads = 2, uuid_calls = 0,
         sent = [PutCommand ''events''
           [(''createdAt'', Str ''2023-11-14T22:13:20.000Z''),
            (''updatedAt'', Str ''2023-11-14T22:13:20.001Z''),
            (''name'', Str ''login'')] None]\<rparr>)
   \<and> is_object [(''name'', Str ''login'')]
   \<and> addItems (sample_env accepting) ''events''
        [[(''name'', Str ''login'')], [(''id'', Str ''e2''), (''name'', Str ''logout'')]] initial
     = Some (Inr (),
        \<lparr>clock_reads = 4, uuid_calls = 0,
         sent = [BatchWriteCommand [(''events'',
           [PutRequest
              [(''createdAt'', Str ''2023-11-14T22:13:20.000Z''),
               (''updatedAt'', Str ''2023-11-14T22:13:20.001Z''),
               (''name'', Str ''login'')] None,
            PutRequest
              [(''createdAt'', Str ''2023-11-14T22:13:20.002Z''),
               (''updatedAt'', Str ''2023-11-14T22:13:20.003Z''),
               (''id'', Str ''e2''), (''name'', Str ''logout'')] None])]]\<rparr>)
   \<and> iso_8601 ''2023-11-14T22:13:20.000Z''
   \<and> (\<exists>item. sent (snd (addItem (sample_env accepting) ''events''
                         [(''updatedAt'', Num 7), (''name'', Str ''login'')] None initial))
                = [PutCommand ''events'' item None]
         \<and> get_prop item ''createdAt'' = Str ''2023-11-14T22:13:20.000Z''
         \<and> get_prop item ''updatedAt'' = Num 7)"
proof -
  let ?items = "[[(''name'', Str ''login'')], [(''id'', Str ''e2''), (''name'', Str ''logout'')]]"
  have a: "addItem (sample_env accepting) ''events'' [(''name'', Str ''login'')] None initial
     = (Inr (),
        \<lparr>clock_reads = 2, uuid_calls = 0,
         sent = [PutCommand ''events''
           [(''createdAt'', Str ''2023-11-14T22:13:20.000Z''),
            (''updatedAt'', Str ''2023-11-14T22:13:20.001Z''),
            (''name'', Str ''login'')] None]\<rparr>)"
    by (simp add: append_eval sample_eval object_eval numeral_2_eq_2)
  have o: "is_object [(''name'', Str ''login'')]" "\<forall>d \<in> set ?items. is_object d"
    by (simp_all add: is_object_def Object_keys_def)
  have b: "addItems (sample_env accepting) ''events'' ?items initial
     = Some (Inr (),
        \<lparr>clock_reads = 4, uuid_calls = 0,
         sent = [BatchWriteCommand [(''events'',
           [PutRequest
              [(''createdAt'', Str ''2023-11-14T22:13:20.000Z''),
               (''updatedAt'', Str ''2023-11-14T22:13:20.001Z''),
               (''name'', Str ''login'')] None,
            PutRequest
              [(''createdAt'', Str ''2023-11-14T22:13:20.002Z''),
               (''updatedAt'', Str ''2023-11-14T22:13:20.003Z''),
               (''id'', Str ''e2''), (''name'', Str ''logout'')] None])]]\<rparr>)"
    by (simp add: addItems_def createBatch_closed slice_from_def addItems_request_def
        append_eval sample_eval object_eval)
  have i: "iso_8601 (toISOString 1700000000000)"
    using append_stamps
      [where env = "sample_env accepting" and table = "''events''" and w = initial
        and data = "[(''name'', Str ''login'')]" and flag = None and items = ?items,
        THEN conjunct2, THEN conjunct2, THEN conjunct2]
    by simp
  let ?data = "[(''updatedAt'', Num 7), (''name'', Str ''login'')]"
  obtain r w' where c: "addItem (sample_env accepting) ''events'' ?data None initial = (r, w')"
    by (cases "addItem (sample_env accepting) ''events'' ?data None initial")
  have od: "is_object ?data" by (simp add: is_object_def Object_keys_def)
  have pd: "\<not> has_prop ''createdAt'' ?data" "has_prop ''updatedAt'' ?data"
    by (simp_all add: has_prop_def)
  from append_stamps
      [where env = "sample_env accepting" and table = "''events''" and w = initial
        and data = ?data and flag = None and r = r and w' = w',
        THEN conjunct1, THEN mp, OF conjI, OF c conjI, OF _ od, THEN conjunct1]
  obtain item where s1: "sent w' = sent initial @ [PutCommand ''events'' item None]"
    and c1: "get_prop item ''createdAt''
      = Str (toISOString (Date_now (sample_env accepting) (clock_reads initial)))"
    and u1: "get_prop item ''updatedAt'' = get_prop ?data ''updatedAt''"
    using pd by auto
  have "Date_now (sample_env accepting) (clock_reads initial) = 1700000000000"
    and e: "sent initial = []"
    by (simp_all add: sample_env_def initial_def)
  with c1 have c2: "get_prop item ''createdAt'' = Str ''2023-11-14T22:13:20.000Z''"
    by (simp add: toISOString_examples)
  from u1 have u2: "get_prop item ''updatedAt'' = Num 7"
    by (simp add: get_prop_def)
  have s2: "sent (snd (addItem (sample_env accepting) ''events'' ?data None initial))
      = [PutCommand ''events'' item None]"
    by (simp add: c s1 e)
  from s2 c2 u2
  have s: "\<exists>item. sent (snd (addItem (sample_env accepting) ''events'' ?data None initial))
                = [PutCommand ''events'' item None]
         \<and> get_prop item ''createdAt'' = Str ''2023-11-14T22:13:20.000Z''
         \<and> get_prop item ''updatedAt'' = Num 7"
    by (intro exI [of _ item] conjI)
  from a b o i s show ?thesis by (simp add: toISOString_examples)
qed

text \<open>
  Claim C9 as the specification words it, with an ISO 8601 string as \<^verbatim>\<open>createdAt\<close> on
  every record, fails for a record that carries a number as \<^verbatim>\<open>createdAt\<close>: it is written
  with that number, and the stamp of the clock is not used for it.
\<close>

theorem append_stamps_supplied:
  "addItem (sample_env accepting) ''events'' [(''createdAt'', Num 5), (''name'', Str ''login'')]
      None initial
     = (Inr (),
        \<lparr>clock_reads = 2, uuid_calls = 0,
         sent = [PutCommand ''events''
           [(''createdAt'', Num 5),
            (''updatedAt'', Str ''2023-11-14T22:13:20.001Z''),
            (''name'', Str ''login'')] None]\<rparr>)"
  by (simp add: append_eval sample_eval object_eval numeral_2_eq_2)

text \<open>
  Claim C10. On the append path every attribute that the caller supplies is written with
  the caller's value, \<^verbatim>\<open>createdAt\<close> and \<^verbatim>\<open>updatedAt\<close> included. The only attributes written
  beyond the caller's are \<^verbatim>\<open>createdAt\<close> and \<^verbatim>\<open>updatedAt\<close>, with the ISO 8601 string of
  a reading of the clock, on a record that lacks them and is not written with the skip
  flag.
\<close>

theorem append_frame:
  "(addItem env table data flag w = (r, w') \<and> is_object data \<longrightarrow>
      (\<exists>item. sent w' = sent w @ [PutCommand table item None]
         \<and> (\<forall>k. has_prop k data \<longrightarrow> has_prop k item \<and> get_prop item k = get_prop data k)
         \<and> (\<forall>k. has_prop k item \<and> \<not> has_prop k data \<longrightarrow>
               flag \<noteq> Some True \<and> (k = ''createdAt'' \<or> k = ''updatedAt'')
             \<and> (\<exists>n. get_prop item k = Str (toISOString (Date_now env n))))
         \<and> (flag \<noteq> Some True \<longrightarrow> has_prop ''createdAt'' item \<and> has_prop ''updatedAt'' item)))
   \<and> (addItems env table items w = Some (r', w'') \<and> (\<forall>d \<in> set items. is_object d) \<longrightarrow>
      (\<exists>cmds written. sent w'' = sent w @ cmds \<and> written = concat (map carried cmds)
         \<and> length written \<le> length items
         \<and> (r' = Inr () \<longrightarrow> length written = length items)
         \<and> (\<forall>i < length written.
              (\<forall>k. has_prop k (items ! i) \<longrightarrow>
                 has_prop k (written ! i) \<and> get_prop (written ! i) k = get_prop (items ! i) k)
            \<and> (\<forall>k. has_prop k (written ! i) \<and> \<not> has_prop k (items ! i) \<longrightarrow>
                 (k = ''createdAt'' \<or> k = ''updatedAt'')
               \<and> (\<exists>n. get_prop (written ! i) k = Str (toISOString (Date_now env n))))
            \<and> has_prop ''createdAt'' (written ! i) \<and> has_prop ''updatedAt'' (written ! i))))
   \<and> addItems env table items w \<noteq> None"
proof (intro conjI impI; (elim conjE)?)
  assume a: "addItem env table data flag w = (r, w')" and o: "is_object data"
  let ?item = "if flag = Some True then data else fst (addCreatedAt env data w)"
  from a have s: "sent w' = sent w @ [PutCommand table ?item None]"
    by (auto simp: addItem_result)
  have 1: "\<forall>k. has_prop k data \<longrightarrow> has_prop k ?item \<and> get_prop ?item k = get_prop data k"
    using o by (simp add: get_prop_addCreatedAt has_prop_addCreatedAt)
  have 2: "\<forall>k. has_prop k ?item \<and> \<not> has_prop k data \<longrightarrow>
               flag \<noteq> Some True \<and> (k = ''createdAt'' \<or> k = ''updatedAt'')
             \<and> (\<exists>n. get_prop ?item k = Str (toISOString (Date_now env n)))"
    using o by (auto simp: get_prop_addCreatedAt has_prop_addCreatedAt)
  have 3: "flag \<noteq> Some True \<longrightarrow> has_prop ''createdAt'' ?item \<and> has_prop ''updatedAt'' ?item"
    by (simp add: has_prop_addCreatedAt)
  from s 1 2 3 show "\<exists>item. sent w' = sent w @ [PutCommand table item None]
         \<and> (\<forall>k. has_prop k data \<longrightarrow> has_prop k item \<and> get_prop item k = get_prop data k)
         \<and> (\<forall>k. has_prop k item \<and> \<not> has_prop k data \<longrightarrow>
               flag \<noteq> Some True \<and> (k = ''createdAt'' \<or> k = ''updatedAt'')
             \<and> (\<exists>n. get_prop item k = Str (toISOString (Date_now env n))))
         \<and> (flag \<noteq> Some True \<longrightarrow> has_prop ''createdAt'' item \<and> has_prop ''updatedAt'' item)"
    by (intro exI [of _ ?item] conjI)
next
  assume a: "addItems env table items w = Some (r', w'')" and o: "\<forall>d \<in> set items. is_object d"
  obtain cmds where
    s: "sent w'' = sent w @ cmds" and
    l: "length (concat (map carried cmds)) \<le> length items" and
    f: "r' = Inr () \<longrightarrow> length (concat (map carried cmds)) = length items" and
    n: "\<forall>i < length (concat (map carried cmds)).
          concat (map carried cmds) ! i
            = fst (addCreatedAt env (items ! i) (w\<lparr>clock_reads := clock_reads w + 2 * i\<rparr>))"
    using addItems_written [OF a] by blast
  let ?written = "concat (map carried cmds)"
  have each: "\<forall>i < length ?written.
              (\<forall>k. has_prop k (items ! i) \<longrightarrow>
                 has_prop k (?written ! i) \<and> get_prop (?written ! i) k = get_prop (items ! i) k)
            \<and> (\<forall>k. has_prop k (?written ! i) \<and> \<not> has_prop k (items ! i) \<longrightarrow>
                 (k = ''createdAt'' \<or> k = ''updatedAt'')
               \<and> (\<exists>n. get_prop (?written ! i) k = Str (toISOString (Date_now env n))))
            \<and> has_prop ''createdAt'' (?written ! i) \<and> has_prop ''updatedAt'' (?written ! i)"
  proof (intro allI impI)
    fix i assume i: "i < length ?written"
    with l o have oi: "is_object (items ! i)" by simp
    show "(\<forall>k. has_prop k (items ! i) \<longrightarrow>
                 has_prop k (?written ! i) \<and> get_prop (?written ! i) k = get_prop (items ! i) k)
            \<and> (\<forall>k. has_prop k (?written ! i) \<and> \<not> has_prop k (items ! i) \<longrightarrow>
                 (k = ''createdAt'' \<or> k = ''updatedAt'')
               \<and> (\<exists>n. get_prop (?written ! i) k = Str (toISOString (Date_now env n))))
            \<and> has_prop ''createdAt'' (?written ! i) \<and> has_prop ''updatedAt'' (?written ! i)"
      unfolding n [rule_format, OF i] using oi
      by (auto simp: get_prop_addCreatedAt has_prop_addCreatedAt)
  qed
  from s l f each show "\<exists>cmds written. sent w'' = sent w @ cmds \<and> written = concat (map carried cmds)
         \<and> length written \<le> length items
         \<and> (r' = Inr () \<longrightarrow> length written = length items)
         \<and> (\<forall>i < length written.
              (\<forall>k. has_prop k (items ! i) \<longrightarrow>
                 has_prop k (written ! i) \<and> get_prop (written ! i) k = get_prop (items ! i) k)
            \<and> (\<forall>k. has_prop k (written ! i) \<and> \<not> has_prop k (items ! i) \<longrightarrow>
                 (k = ''createdAt'' \<or> k = ''updatedAt'')
               \<and> (\<exists>n. get_prop (written ! i) k = Str (toISOString (Date_now env n))))
            \<and> has_prop ''createdAt'' (written ! i) \<and> has_prop ''updatedAt'' (written ! i))"
    by blast
next
  show "addItems env table items w \<noteq> None"
    using addItems_settles [of env table items w] by auto
qed

theorem append_frame_witness:
  "addItem (sample_env accepting) ''events''
      [(''updatedAt'', Str ''yesterday''), (''name'', Str ''login'')] None initial
     = (Inr (),
        \<lparr>clock_reads = 2, uuid_calls = 0,
         sent = [PutCommand ''events''
           [(''createdAt'', Str ''2023-11-14T22:13:20.000Z''),
            (''updatedAt'', Str ''yesterday''),
            (''name'', Str ''login'')] None]\<rparr>)
   \<and> is_object [(''updatedAt'', Str ''yesterday''), (''name'', Str ''login'')]
   \<and> addItem (sample_env accepting) ''events'' [(''name'', Str ''login'')] (Some True) initial
     = (Inr (),
        \<lparr>clock_reads = 0, uuid_calls = 0,
         sent = [PutCommand ''events'' [(''name'', Str ''login'')] None]\<rparr>)
   \<and> addItems (sample_env accepting) ''events''
        [[(''name'', Str ''login'')], [(''createdAt'', Num 5), (''name'', Str ''logout'')]] initial
     = Some (Inr (),
        \<lparr>clock_reads = 4, uuid_calls = 0,
         sent = [BatchWriteCommand [(''events'',
           [PutRequest
              [(''createdAt'', Str ''2023-11-14T22:13:20.000Z''),
               (''updatedAt'', Str ''2023-11-14T22:13:20.001Z''),
               (''name'', Str ''login'')] None,
            PutRequest
              [(''createdAt'', Num 5),
               (''updatedAt'', Str ''2023-11-14T22:13:20.003Z''),
               (''name'', Str ''logout'')] None])]]\<rparr>)"
proof -
  let ?data = "[(''updatedAt'', Str ''yesterday''), (''name'', Str ''login'')]"
  let ?items = "[[(''name'', Str ''login'')], [(''createdAt'', Num 5), (''name'', Str ''logout'')]]"
  have a: "addItem (sample_env accepting) ''events'' ?data None initial
     = (Inr (),
        \<lparr>clock_reads = 2, uuid_calls = 0,
         sent = [PutCommand ''events''
           [(''createdAt'', Str ''2023-11-14T22:13:20.000Z''),
            (''updatedAt'', Str ''yesterday''),
            (''name'', Str ''login'')] None]\<rparr>)"
    by (simp add: append_eval sample_eval object_eval numeral_2_eq_2)
  have o: "is_object ?data" "\<forall>d \<in> set ?items. is_object d"
    by (simp_all add: is_object_def Object_keys_def)
  have c: "addItem (sample_env accepting) ''events'' [(''name'', Str ''login'')] (Some True) initial
     = (Inr (),
        \<lparr>clock_reads = 0, uuid_calls = 0,
         sent = [PutCommand ''events'' [(''name'', Str ''login'')] None]\<rparr>)"
    by (simp add: append_eval sample_eval)
  have b: "addItems (sample_env accepting) ''events'' ?items initial
     = Some (Inr (),
        \<lparr>clock_reads = 4, uuid_calls = 0,
         sent = [BatchWriteCommand [(''events'',
           [PutRequest
              [(''createdAt'', Str ''2023-11-14T22:13:20.000Z''),
               (''updatedAt'', Str ''2023-11-14T22:13:20.001Z''),
               (''name'', Str ''login'')] None,
            PutRequest
              [(''createdAt'', Num 5),
               (''updatedAt'', Str ''2023-11-14T22:13:20.003Z''),
               (''name'', Str ''logout'')] None])]]\<rparr>)"
    by (simp add: addItems_def createBatch_closed slice_from_def addItems_request_def
        append_eval sample_eval object_eval)
  note append_frame
      [where env = "sample_env accepting" and table = "''events''" and w = initial
        and data = ?data and flag = None and items = ?items]
  with a b c o show ?thesis by simp
qed

end
